theory Spec2Isabelle
  imports Main "HOL-Library.AList"
begin

section \<open>Strings and JavaScript values\<close>

text \<open>
  Strings are lists of 8-bit characters, read as the code units below 256 of the
  JavaScript string (Latin-1). \<open>is_space\<close> is the white space that
  \<^verbatim>\<open>String.prototype.trim\<close> and the regular expression class \<^verbatim>\<open>\s\<close> remove in that range.
  \<^verbatim>\<open>toLowerCase\<close> maps the letters \<^verbatim>\<open>A\<close> to \<^verbatim>\<open>Z\<close> and the capital letters from U+00C0 to
  U+00DE, the multiplication sign U+00D7 apart, to the letter 32 code points higher, and
  leaves every other character of the range as it is.
\<close>

definition is_space :: "char \<Rightarrow> bool" where
  "is_space c \<longleftrightarrow> c \<in> set [CHR 0x09, CHR 0x0A, CHR 0x0B, CHR 0x0C, CHR 0x0D, CHR 0x20, CHR 0xA0]"

definition js_trim :: "string \<Rightarrow> string" where
  "js_trim s = rev (dropWhile is_space (rev (dropWhile is_space s)))"

definition lower_char :: "char \<Rightarrow> char" where
  "lower_char c =
     (let n = (of_char c :: nat) in
      if (65 \<le> n \<and> n \<le> 90) \<or> (192 \<le> n \<and> n \<le> 222 \<and> n \<noteq> 215) then char_of (n + 32)
      else c)"

definition js_toLowerCase :: "string \<Rightarrow> string" where
  "js_toLowerCase s = map lower_char s"

text \<open>\<^verbatim>\<open>s.split(d)\<close> for a separator recognised by \<open>p\<close>: the pieces between separators,
  \<^verbatim>\<open>['']\<close> for the empty string.\<close>

fun split_acc :: "(char \<Rightarrow> bool) \<Rightarrow> string \<Rightarrow> string \<Rightarrow> string list" where
  "split_acc p acc [] = [rev acc]"
| "split_acc p acc (c # cs) =
     (if p c then rev acc # split_acc p [] cs else split_acc p (c # acc) cs)"

definition js_split :: "char \<Rightarrow> string \<Rightarrow> string list" where
  "js_split d s = split_acc (\<lambda>c. c = d) [] s"

text \<open>The \<open>i\<close>-th element of a JavaScript array, \<^verbatim>\<open>undefined\<close> out of range.\<close>

definition js_nth :: "'a list \<Rightarrow> nat \<Rightarrow> 'a option" where
  "js_nth xs i = (if i < length xs then Some (xs ! i) else None)"

text \<open>A value that the API takes where it documents \<^verbatim>\<open>string | string[]\<close>, or that
  the caller omitted.\<close>

datatype strs = Undefined | Str string | Arr "string list"

text \<open>Truthiness of an optional string: \<^verbatim>\<open>undefined\<close>, \<^verbatim>\<open>null\<close> and \<^verbatim>\<open>''\<close> are falsy.\<close>

definition truthy :: "string option \<Rightarrow> bool" where
  "truthy v \<longleftrightarrow> (case v of None \<Rightarrow> False | Some s \<Rightarrow> s \<noteq> [])"

text \<open>String concatenation turns \<^verbatim>\<open>undefined\<close> into the text \<^verbatim>\<open>undefined\<close>.\<close>

definition js_str :: "string option \<Rightarrow> string" where
  "js_str v = (case v of None \<Rightarrow> ''undefined'' | Some s \<Rightarrow> s)"

section \<open>Errors\<close>

text \<open>
  Every \<^verbatim>\<open>throw new AccessControlError(...)\<close> of the source is one constructor, with the
  names its message quotes. \<open>TypeError\<close> is what the engine throws in strict mode for a
  write to a frozen object (and for a call of a missing method), \<open>RangeError\<close> what it
  throws when the call stack is exhausted.
\<close>

datatype error =
    ErrLock
  | InvalidName
  | ReservedName string
  | InvalidResourceDefinition
  | InvalidResourceAttributes string
  | InvalidSubjectDefinition
  | InvalidExtendValue string
  | ReservedResourceName string
  | InvalidAction
  | InvalidPossession string
  | InvalidInfo
  | InvalidSubjects
  | InvalidResource
  | InvalidResources
  | SubjectNotFound "string option"
  | SelfExtend string
  | CrossInheritance string string
  | InheritInvalid
  | InheritNonExistent "string list"
  | RemoveNonExisting string
  | LockEmpty
  | CouldNotLock
  | InvalidGrantsObject
  | InvalidInitialGrants
  | TypeError
  | RangeError

section \<open>The grants model\<close>

text \<open>
  A JavaScript object is an association list in insertion order: \<open>AList.update\<close>
  overwrites a key in place or appends a new one, \<open>AList.delete\<close> removes it, as
  assignment and \<^verbatim>\<open>delete\<close> do for the keys that \<^verbatim>\<open>Object.keys\<close> lists. Under a subject
  a key holds either a resource definition (an object from action keys to attribute
  arrays) or, for \<^verbatim>\<open>_extend_\<close>, an array of role names.

  A lookup \<^verbatim>\<open>grants[name]\<close> is the lookup of an own property. The model covers the names
  that are not names of members of \<^verbatim>\<open>Object.prototype\<close> (\<^verbatim>\<open>constructor\<close>, \<^verbatim>\<open>toString\<close>,
  \<^verbatim>\<open>valueOf\<close>, \<^verbatim>\<open>hasOwnProperty\<close>, \<^verbatim>\<open>__proto__\<close> and the like): where the object has no own
  property of such a name the engine finds the inherited member, a function, and the
  model finds nothing.
\<close>

type_synonym attrs = "string list"
type_synonym resource_def = "(string \<times> attrs) list"

datatype role_value = Resource resource_def | Extend "string list"

type_synonym role = "(string \<times> role_value) list"
type_synonym grants = "(string \<times> role) list"

definition RESERVED_KEYWORDS :: "string list" where
  "RESERVED_KEYWORDS = [''*'', ''!'', ''$'', ''_extend_'']"

text \<open>\<^verbatim>\<open>subject._extend_\<close> when it is an array.\<close>

definition extend_of :: "role \<Rightarrow> string list option" where
  "extend_of r = (case map_of r ''_extend_'' of Some (Extend xs) \<Rightarrow> Some xs | _ \<Rightarrow> None)"

section \<open>Generic utilities\<close>

definition toStringArray :: "strs \<Rightarrow> string list" where
  "toStringArray v =
     (case v of
        Arr xs \<Rightarrow> xs
      | Str s \<Rightarrow> map js_trim (split_acc (\<lambda>c. c = CHR '';'' \<or> c = CHR '','') [] (js_trim s))
      | Undefined \<Rightarrow> [])"

definition isFilledStringArray :: "string list \<Rightarrow> bool" where
  "isFilledStringArray arr \<longleftrightarrow> list_all (\<lambda>s. js_trim s \<noteq> []) arr"

definition isEmptyArray :: "strs \<Rightarrow> bool" where
  "isEmptyArray v \<longleftrightarrow> v = Arr []"

definition pushUniq :: "'a list \<Rightarrow> 'a \<Rightarrow> 'a list" where
  "pushUniq arr item = (if item \<in> set arr then arr else arr @ [item])"

definition uniqConcat :: "'a list \<Rightarrow> 'a list \<Rightarrow> 'a list" where
  "uniqConcat arrA arrB = foldl pushUniq arrA arrB"

definition subtractArray :: "'a list \<Rightarrow> 'a list \<Rightarrow> 'a list" where
  "subtractArray arrA arrB = filter (\<lambda>a. a \<notin> set arrB) arrA"

section \<open>Validation\<close>

text \<open>\<open>validName\<close> with \<^verbatim>\<open>throwOnInvalid = true\<close>; \<open>validName_ok\<close> is the call with
  \<^verbatim>\<open>throwOnInvalid = false\<close>.\<close>

definition validName :: "string \<Rightarrow> error + unit" where
  "validName name =
     (if js_trim name = [] then Inl InvalidName
      else if name \<in> set RESERVED_KEYWORDS then Inl (ReservedName name)
      else Inr ())"

definition validName_ok :: "string \<Rightarrow> bool" where
  "validName_ok name \<longleftrightarrow> js_trim name \<noteq> [] \<and> name \<notin> set RESERVED_KEYWORDS"

fun hasValidNames_each :: "string list \<Rightarrow> error + unit" where
  "hasValidNames_each [] = Inr ()"
| "hasValidNames_each (n # ns) =
     (case validName n of Inl e \<Rightarrow> Inl e | Inr _ \<Rightarrow> hasValidNames_each ns)"

definition hasValidNames :: "strs \<Rightarrow> error + unit" where
  "hasValidNames l = hasValidNames_each (toStringArray l)"

fun validResourceObject :: "resource_def \<Rightarrow> error + unit" where
  "validResourceObject [] = Inr ()"
| "validResourceObject ((action, perms) # rest) =
     (if perms \<noteq> [] \<and> \<not> isFilledStringArray perms then Inl (InvalidResourceAttributes action)
      else validResourceObject rest)"

section \<open>Role hierarchy\<close>

text \<open>
  \<open>getRoleHierarchyOf\<close> recurses through the \<^verbatim>\<open>_extend_\<close> lists and checks only the
  root role against a loop, so on a cycle that does not pass through the root it recurses
  until the stack is exhausted. The first argument is the number of stack frames
  available; with none left the call is the engine's \<open>RangeError\<close>. \<open>hierarchy_each\<close> is
  the body of the \<^verbatim>\<open>forEach\<close> over \<^verbatim>\<open>subject._extend_\<close>, \<open>arr\<close> its accumulator.
\<close>

fun getRoleHierarchyOf :: "nat \<Rightarrow> grants \<Rightarrow> string \<Rightarrow> string option \<Rightarrow> error + string list"
  and hierarchy_each ::
    "nat \<Rightarrow> grants \<Rightarrow> string \<Rightarrow> string option \<Rightarrow> string list \<Rightarrow> string list \<Rightarrow> error + string list"
where
  "getRoleHierarchyOf 0 g subjectName rootRole = Inl RangeError"
| "getRoleHierarchyOf (Suc n) g subjectName rootRole =
     (case map_of g subjectName of
        None \<Rightarrow> Inl (SubjectNotFound (Some subjectName))
      | Some subject \<Rightarrow>
          (case extend_of subject of
             None \<Rightarrow> Inr [subjectName]
           | Some exts \<Rightarrow>
               if exts = [] then Inr [subjectName]
               else hierarchy_each n g subjectName rootRole exts [subjectName]))"
| "hierarchy_each n g subjectName rootRole [] arr = Inr arr"
| "hierarchy_each n g subjectName rootRole (exRoleName # rest) arr =
     (if map_of g exRoleName = None then Inl (SubjectNotFound None)
      else if exRoleName = subjectName then Inl (SelfExtend subjectName)
      else if truthy rootRole \<and> rootRole = Some exRoleName
        then Inl (CrossInheritance exRoleName exRoleName)
      else
        (case getRoleHierarchyOf n g exRoleName
                (if truthy rootRole then rootRole else Some subjectName) of
           Inl e \<Rightarrow> Inl e
         | Inr ext \<Rightarrow> hierarchy_each n g subjectName rootRole rest (uniqConcat arr ext)))"

fun getFlatRoles_each :: "nat \<Rightarrow> grants \<Rightarrow> string list \<Rightarrow> string list \<Rightarrow> error + string list" where
  "getFlatRoles_each fuel g [] arr = Inr arr"
| "getFlatRoles_each fuel g (subjectName # rest) arr =
     (case getRoleHierarchyOf fuel g subjectName None of
        Inl e \<Rightarrow> Inl e
      | Inr h \<Rightarrow> getFlatRoles_each fuel g rest (uniqConcat arr h))"

definition getFlatRoles :: "nat \<Rightarrow> grants \<Rightarrow> strs \<Rightarrow> error + string list" where
  "getFlatRoles fuel g subjects =
     (let arrRoles = toStringArray subjects in
      if arrRoles = [] then Inl InvalidSubjects
      else getFlatRoles_each fuel g arrRoles (uniqConcat [] arrRoles))"

definition getNonExistentRoles :: "grants \<Rightarrow> string list \<Rightarrow> string list" where
  "getNonExistentRoles g subjects = filter (\<lambda>s. map_of g s = None) subjects"

text \<open>The loop of \<open>getCrossExtendingRole\<close>; \<open>crossInherited\<close> starts as \<^verbatim>\<open>null\<close>.\<close>

fun getCrossExtendingRole_each ::
  "nat \<Rightarrow> grants \<Rightarrow> string \<Rightarrow> string list \<Rightarrow> string option \<Rightarrow> error + string option" where
  "getCrossExtendingRole_each fuel g subjectName [] crossInherited = Inr crossInherited"
| "getCrossExtendingRole_each fuel g subjectName (e # rest) crossInherited =
     (if truthy crossInherited \<or> subjectName = e then Inr crossInherited
      else
        (case getRoleHierarchyOf fuel g e None of
           Inl err \<Rightarrow> Inl err
         | Inr inheritedByExtender \<Rightarrow>
             getCrossExtendingRole_each fuel g subjectName rest
               (if subjectName \<in> set inheritedByExtender then Some e else crossInherited)))"

definition getCrossExtendingRole :: "nat \<Rightarrow> grants \<Rightarrow> string \<Rightarrow> strs \<Rightarrow> error + string option" where
  "getCrossExtendingRole fuel g subjectName extenderRoles =
     getCrossExtendingRole_each fuel g subjectName (toStringArray extenderRoles) None"

section \<open>Mutating the grants model\<close>

text \<open>
  A function that writes to the grants object takes the object and returns it with the
  outcome, also when it throws: what was written before the \<^verbatim>\<open>throw\<close> stays written.
  \<open>fr\<close> tells whether the object is frozen (\<open>deepFreeze\<close> freezes the object and everything
  in it at once); a write to a frozen object throws \<open>TypeError\<close>, the files being in
  strict mode.
\<close>

text \<open>The value assigned to \<^verbatim>\<open>r._extend_\<close>. Without \<^verbatim>\<open>replace\<close> it is
  \<^verbatim>\<open>uniqConcat(r._extend_ ?? [], arrExtRoles)\<close>, whose \<^verbatim>\<open>arrA.concat()\<close> is a \<open>TypeError\<close> when
  \<^verbatim>\<open>_extend_\<close> holds an object.\<close>

definition new_extend :: "role \<Rightarrow> string list \<Rightarrow> bool \<Rightarrow> error + string list" where
  "new_extend r arrExtRoles replace =
     (if replace then Inr arrExtRoles
      else
        (case map_of r ''_extend_'' of
           None \<Rightarrow> Inr (uniqConcat [] arrExtRoles)
         | Some (Extend xs) \<Rightarrow> Inr (uniqConcat xs arrExtRoles)
         | Some (Resource _) \<Rightarrow> Inl TypeError))"

fun extendRole_each ::
  "nat \<Rightarrow> bool \<Rightarrow> grants \<Rightarrow> string list \<Rightarrow> bool \<Rightarrow> string list \<Rightarrow> (error + unit) \<times> grants" where
  "extendRole_each fuel fr g arrExtRoles replace [] = (Inr (), g)"
| "extendRole_each fuel fr g arrExtRoles replace (subjectName # rest) =
     (case map_of g subjectName of
        None \<Rightarrow> (Inl (SubjectNotFound (Some subjectName)), g)
      | Some r \<Rightarrow>
          if subjectName \<in> set arrExtRoles then (Inl (SelfExtend subjectName), g)
          else
            (case getCrossExtendingRole fuel g subjectName (Arr arrExtRoles) of
               Inl e \<Rightarrow> (Inl e, g)
             | Inr crossInherited \<Rightarrow>
                 if truthy crossInherited
                 then (Inl (CrossInheritance (js_str crossInherited) subjectName), g)
                 else
                   (case validName subjectName of
                      Inl e \<Rightarrow> (Inl e, g)
                    | Inr _ \<Rightarrow>
                        (case new_extend r arrExtRoles replace of
                           Inl e \<Rightarrow> (Inl e, g)
                         | Inr ext \<Rightarrow>
                             if fr then (Inl TypeError, g)
                             else extendRole_each fuel fr
                                    (AList.update subjectName
                                       (AList.update ''_extend_'' (Extend ext) r) g)
                                    arrExtRoles replace rest))))"

definition extendRole ::
  "nat \<Rightarrow> bool \<Rightarrow> grants \<Rightarrow> strs \<Rightarrow> strs \<Rightarrow> bool \<Rightarrow> (error + unit) \<times> grants" where
  "extendRole fuel fr g subjects extenderRoles replace =
     (let subjects' = toStringArray subjects in
      if subjects' = [] then (Inl InvalidSubjects, g)
      else if isEmptyArray extenderRoles then (Inr (), g)
      else
        (let arrExtRoles = toStringArray extenderRoles in
         if arrExtRoles = [] then (Inl InheritInvalid, g)
         else if getNonExistentRoles g arrExtRoles \<noteq> []
           then (Inl (InheritNonExistent (getNonExistentRoles g arrExtRoles)), g)
         else extendRole_each fuel fr g arrExtRoles replace subjects'))"

fun preCreateRoles_each :: "bool \<Rightarrow> grants \<Rightarrow> string list \<Rightarrow> (error + unit) \<times> grants" where
  "preCreateRoles_each fr g [] = (Inr (), g)"
| "preCreateRoles_each fr g (subject # rest) =
     (case validName subject of
        Inl e \<Rightarrow> (Inl e, g)
      | Inr _ \<Rightarrow>
          if map_of g subject = None
          then (if fr then (Inl TypeError, g)
                else preCreateRoles_each fr (AList.update subject [] g) rest)
          else preCreateRoles_each fr g rest)"

definition preCreateRoles :: "bool \<Rightarrow> grants \<Rightarrow> strs \<Rightarrow> (error + unit) \<times> grants" where
  "preCreateRoles fr g subjects =
     (case subjects of
        Undefined \<Rightarrow> (Inl InvalidSubjects, g)
      | _ \<Rightarrow>
          if toStringArray subjects = [] then (Inl InvalidSubjects, g)
          else preCreateRoles_each fr g (toStringArray subjects))"

section \<open>Access and query records\<close>

text \<open>\<^verbatim>\<open>IAccessInfo\<close> and \<^verbatim>\<open>IQueryInfo\<close>; an absent field is \<open>Undefined\<close> or \<open>None\<close>.\<close>

record access_info =
  a_subject :: strs
  a_resource :: strs
  a_action :: "string option"
  a_possession :: "string option"
  a_attributes :: strs
  a_denied :: bool

record query_info =
  q_subject :: strs
  q_resource :: "string option"
  q_action :: "string option"
  q_possession :: "string option"

definition empty_access :: access_info where
  "empty_access =
     \<lparr>a_subject = Undefined, a_resource = Undefined, a_action = None, a_possession = None,
      a_attributes = Undefined, a_denied = False\<rparr>"

definition empty_query :: query_info where
  "empty_query = \<lparr>q_subject = Undefined, q_resource = None, q_action = None, q_possession = None\<rparr>"

text \<open>Truthiness of a \<^verbatim>\<open>string | string[]\<close> argument: an array is truthy, also when empty.\<close>

definition strs_truthy :: "strs \<Rightarrow> bool" where
  "strs_truthy v \<longleftrightarrow> (case v of Undefined \<Rightarrow> False | Str s \<Rightarrow> s \<noteq> [] | Arr _ \<Rightarrow> True)"

definition isInfoFulfilled :: "access_info \<Rightarrow> bool" where
  "isInfoFulfilled info \<longleftrightarrow>
     a_subject info \<noteq> Undefined \<and> a_action info \<noteq> None \<and> a_resource info \<noteq> Undefined"

text \<open>The action and possession that \<open>normalizeActionPossession\<close> writes into the record.\<close>

definition normalizeActionPossession ::
  "string option \<Rightarrow> string option \<Rightarrow> error + (string \<times> string)" where
  "normalizeActionPossession action possession =
     (case action of
        None \<Rightarrow> Inl InvalidAction
      | Some a \<Rightarrow>
          (let s = js_split CHR '':'' a;
               act = js_toLowerCase (js_trim (js_str (js_nth s 0)));
               poss = (if truthy possession then possession else js_nth s 1)
           in if truthy poss
              then (if poss \<noteq> Some ''any'' \<and> poss \<noteq> Some ''own''
                    then Inl (InvalidPossession (js_str poss))
                    else Inr (act, js_str poss))
              else Inr (act, ''any'')))"

definition normalizeQueryInfo :: "query_info \<Rightarrow> error + query_info" where
  "normalizeQueryInfo query =
     (let subject = toStringArray (q_subject query) in
      if \<not> isFilledStringArray subject then Inl InvalidSubjects
      else
        (case q_resource query of
           None \<Rightarrow> Inl InvalidResource
         | Some res \<Rightarrow>
             if js_trim res = [] then Inl InvalidResource
             else
               (case normalizeActionPossession (q_action query) (q_possession query) of
                  Inl e \<Rightarrow> Inl e
                | Inr (act, poss) \<Rightarrow>
                    Inr \<lparr>q_subject = Arr subject, q_resource = Some (js_trim res),
                         q_action = Some act, q_possession = Some poss\<rparr>)))"

definition normalizeAccessInfo :: "access_info \<Rightarrow> bool \<Rightarrow> error + access_info" where
  "normalizeAccessInfo access all =
     (let subject = toStringArray (a_subject access) in
      if subject = [] \<or> \<not> isFilledStringArray subject then Inl InvalidSubjects
      else
        (let resource = toStringArray (a_resource access) in
         if resource = [] \<or> \<not> isFilledStringArray resource then Inl InvalidResources
         else
           (let attributes =
                  (if a_denied access \<or> a_attributes access = Arr [] then []
                   else if \<not> strs_truthy (a_attributes access) then [''*'']
                   else toStringArray (a_attributes access));
                access' = access\<lparr>a_subject := Arr subject, a_resource := Arr resource,
                                 a_attributes := Arr attributes\<rparr>
            in if all
               then (case normalizeActionPossession (a_action access') (a_possession access') of
                       Inl e \<Rightarrow> Inl e
                     | Inr (act, poss) \<Rightarrow>
                         Inr (access'\<lparr>a_action := Some act, a_possession := Some poss\<rparr>))
               else Inr access')))"

definition resetAttributes :: "access_info \<Rightarrow> access_info" where
  "resetAttributes access =
     (if a_denied access then access\<lparr>a_attributes := Arr []\<rparr>
      else if \<not> strs_truthy (a_attributes access) \<or> isEmptyArray (a_attributes access)
        then access\<lparr>a_attributes := Arr [''*'']\<rparr>
      else access)"

section \<open>Committing an access record\<close>

text \<open>
  The inner \<^verbatim>\<open>forEach\<close> of \<open>commitToGrants\<close> over the resources, for the subject \<open>subject\<close>
  whose entry exists. \<^verbatim>\<open>grantItem[res][ap] = ...\<close> sets a key of the resource definition;
  where \<^verbatim>\<open>grantItem[res]\<close> is an array the assignment adds a named property to the array
  and changes none of its elements.
\<close>

fun commit_resources ::
  "bool \<Rightarrow> grants \<Rightarrow> string \<Rightarrow> string \<Rightarrow> attrs \<Rightarrow> string list \<Rightarrow> (error + unit) \<times> grants" where
  "commit_resources fr g subject ap attributes [] = (Inr (), g)"
| "commit_resources fr g subject ap attributes (res # rest) =
     (case validName res of
        Inl e \<Rightarrow> (Inl e, g)
      | Inr _ \<Rightarrow>
          (case map_of g subject of
             None \<Rightarrow> (Inl TypeError, g)
           | Some grantItem \<Rightarrow>
               if fr then (Inl TypeError, g)
               else
                 (let grantItem' =
                        (case map_of grantItem res of
                           None \<Rightarrow> AList.update res (Resource [(ap, attributes)]) grantItem
                         | Some (Resource r) \<Rightarrow>
                             AList.update res (Resource (AList.update ap attributes r)) grantItem
                         | Some (Extend xs) \<Rightarrow> grantItem)
                  in commit_resources fr (AList.update subject grantItem' g) subject ap
                       attributes rest)))"

fun commit_subjects ::
  "bool \<Rightarrow> grants \<Rightarrow> string \<Rightarrow> attrs \<Rightarrow> string list \<Rightarrow> string list \<Rightarrow> (error + unit) \<times> grants" where
  "commit_subjects fr g ap attributes resources [] = (Inr (), g)"
| "commit_subjects fr g ap attributes resources (subject # rest) =
     (case validName subject of
        Inl e \<Rightarrow> (Inl e, g)
      | Inr _ \<Rightarrow>
          if map_of g subject = None \<and> fr then (Inl TypeError, g)
          else
            (let g1 = (if map_of g subject = None then AList.update subject [] g else g) in
             case commit_resources fr g1 subject ap attributes resources of
               (Inl e, g2) \<Rightarrow> (Inl e, g2)
             | (Inr _, g2) \<Rightarrow> commit_subjects fr g2 ap attributes resources rest))"

definition commitToGrants :: "bool \<Rightarrow> grants \<Rightarrow> access_info \<Rightarrow> bool \<Rightarrow> (error + unit) \<times> grants" where
  "commitToGrants fr g access normalizeAll =
     (case normalizeAccessInfo access normalizeAll of
        Inl e \<Rightarrow> (Inl e, g)
      | Inr a \<Rightarrow>
          commit_subjects fr g (js_str (a_action a) @ '':'' @ js_str (a_possession a))
            (toStringArray (a_attributes a)) (toStringArray (a_resource a))
            (toStringArray (a_subject a)))"

section \<open>Inspecting a grants object\<close>

text \<open>
  The inspection works on the object it is given, in place: \<open>extendRole\<close> writes the
  inheritance lists into it while the subjects are being validated, and what was written
  stays when a later subject makes the inspection throw. \<open>fr\<close> tells whether the object is
  frozen. \<open>validRoleObject_each\<close> is the \<^verbatim>\<open>eachKey\<close> over the keys the subject had when the
  loop began; the values are read from the object as it is by then. The subject is passed
  to \<open>extendRole\<close> as a string, so \<open>toStringArray\<close> splits it.
\<close>

fun validRoleObject_each ::
  "nat \<Rightarrow> bool \<Rightarrow> grants \<Rightarrow> string \<Rightarrow> string list \<Rightarrow> (error + unit) \<times> grants" where
  "validRoleObject_each fuel fr g subjectName [] = (Inr (), g)"
| "validRoleObject_each fuel fr g subjectName (resourceName # rest) =
     (case map_of g subjectName of
        None \<Rightarrow> (Inl TypeError, g)
      | Some subject \<Rightarrow>
          if \<not> validName_ok resourceName then
            (if resourceName = ''_extend_'' then
               (case map_of subject resourceName of
                  Some (Extend extRoles) \<Rightarrow>
                    if \<not> isFilledStringArray extRoles then (Inl (InvalidExtendValue subjectName), g)
                    else
                      (case extendRole fuel fr g (Str subjectName) (Arr extRoles) False of
                         (Inl e, g') \<Rightarrow> (Inl e, g')
                       | (Inr _, g') \<Rightarrow> validRoleObject_each fuel fr g' subjectName rest)
                | _ \<Rightarrow> (Inl (InvalidExtendValue subjectName), g))
             else (Inl (ReservedResourceName resourceName), g))
          else
            (case map_of subject resourceName of
               Some (Resource r) \<Rightarrow>
                 (case validResourceObject r of
                    Inl e \<Rightarrow> (Inl e, g)
                  | Inr _ \<Rightarrow> validRoleObject_each fuel fr g subjectName rest)
             | _ \<Rightarrow> (Inl InvalidResourceDefinition, g)))"

definition validRoleObject :: "nat \<Rightarrow> bool \<Rightarrow> grants \<Rightarrow> string \<Rightarrow> (error + unit) \<times> grants" where
  "validRoleObject fuel fr g subjectName =
     (case map_of g subjectName of
        None \<Rightarrow> (Inl InvalidSubjectDefinition, g)
      | Some subject \<Rightarrow> validRoleObject_each fuel fr g subjectName (map fst subject))"

text \<open>The \<^verbatim>\<open>eachKey\<close> of \<open>getInspectedGrants\<close> over the subjects that the object had when the
  loop began, and its \<^verbatim>\<open>forEach\<close> over the records of an array, which are committed to a
  new object.\<close>

fun inspect_each :: "nat \<Rightarrow> bool \<Rightarrow> grants \<Rightarrow> string list \<Rightarrow> (error + unit) \<times> grants" where
  "inspect_each fuel fr g [] = (Inr (), g)"
| "inspect_each fuel fr g (subjectName # rest) =
     (case validName subjectName of
        Inl e \<Rightarrow> (Inl e, g)
      | Inr _ \<Rightarrow>
          (case validRoleObject fuel fr g subjectName of
             (Inl e, g') \<Rightarrow> (Inl e, g')
           | (Inr _, g') \<Rightarrow> inspect_each fuel fr g' rest))"

fun commit_items :: "grants \<Rightarrow> access_info list \<Rightarrow> (error + unit) \<times> grants" where
  "commit_items g [] = (Inr (), g)"
| "commit_items g (item # rest) =
     (case commitToGrants False g item True of
        (Inl e, g') \<Rightarrow> (Inl e, g')
      | (Inr _, g') \<Rightarrow> commit_items g' rest)"

text \<open>
  The argument of \<open>getInspectedGrants\<close>: an object (its properties, and whether it is
  frozen), an array of records, or anything else. The function returns its outcome
  together with the object it worked on: the argument itself, or the new object that the
  records were committed to. When it returns, this object is the inspected grants.
\<close>

datatype inspect_arg = IObject grants bool | IArray "access_info list" | IOther

definition getInspectedGrants :: "nat \<Rightarrow> inspect_arg \<Rightarrow> (error + unit) \<times> grants" where
  "getInspectedGrants fuel obj =
     (case obj of
        IObject g fr \<Rightarrow> inspect_each fuel fr g (map fst g)
      | IArray items \<Rightarrow> commit_items [] items
      | IOther \<Rightarrow> (Inl InvalidGrantsObject, []))"

section \<open>Resolving a query\<close>

text \<open>
  \<^verbatim>\<open>Notation.Glob.union\<close> belongs to the package \<^verbatim>\<open>notation\<close>, not to this repository: it
  is the parameter \<open>glob_union\<close>. \<open>attrs_of_role\<close> is what one role contributes to
  \<^verbatim>\<open>attrsList\<close>: nothing when it has no entry for the resource, otherwise a copy of the
  first of \<^verbatim>\<open>resource[action:possession]\<close>, \<^verbatim>\<open>resource[action:any]\<close> and \<^verbatim>\<open>[]\<close> that is defined
  (an array is truthy also when empty).
\<close>

definition attrs_of_role :: "role \<Rightarrow> string \<Rightarrow> string \<Rightarrow> string \<Rightarrow> attrs list" where
  "attrs_of_role subject resource action possession =
     (case map_of subject resource of
        None \<Rightarrow> []
      | Some (Extend xs) \<Rightarrow> [[]]
      | Some (Resource r) \<Rightarrow>
          (case map_of r (action @ '':'' @ possession) of
             Some a \<Rightarrow> [a]
           | None \<Rightarrow>
               (case map_of r (action @ '':any'') of
                  Some a \<Rightarrow> [a]
                | None \<Rightarrow> [[]])))"

fun collect_attrs :: "grants \<Rightarrow> string \<Rightarrow> string \<Rightarrow> string \<Rightarrow> string list \<Rightarrow> error + attrs list" where
  "collect_attrs g resource action possession [] = Inr []"
| "collect_attrs g resource action possession (subjectName # rest) =
     (case map_of g subjectName of
        None \<Rightarrow> Inl TypeError
      | Some subject \<Rightarrow>
          (case collect_attrs g resource action possession rest of
             Inl e \<Rightarrow> Inl e
           | Inr l \<Rightarrow> Inr (attrs_of_role subject resource action possession @ l)))"

definition union_all :: "(attrs \<Rightarrow> attrs \<Rightarrow> attrs) \<Rightarrow> attrs list \<Rightarrow> attrs" where
  "union_all glob_union attrsList =
     (case attrsList of [] \<Rightarrow> [] | a # rest \<Rightarrow> foldl glob_union a rest)"

definition getUnionAttrsOfRoles ::
  "(attrs \<Rightarrow> attrs \<Rightarrow> attrs) \<Rightarrow> nat \<Rightarrow> grants \<Rightarrow> query_info \<Rightarrow> error + attrs" where
  "getUnionAttrsOfRoles glob_union fuel g query =
     (case normalizeQueryInfo query of
        Inl e \<Rightarrow> Inl e
      | Inr q \<Rightarrow>
          (case getFlatRoles fuel g (q_subject q) of
             Inl e \<Rightarrow> Inl e
           | Inr subjects \<Rightarrow>
               (case collect_attrs g (js_str (q_resource q)) (js_str (q_action q))
                       (js_str (q_possession q)) subjects of
                  Inl e \<Rightarrow> Inl e
                | Inr attrsList \<Rightarrow> Inr (union_all glob_union attrsList))))"

text \<open>
  Modelled from the spec: the class \<^verbatim>\<open>Permission\<close> (\<^verbatim>\<open>lib/core/Permission.js\<close>) is not among
  the sources, only its declaration \<^verbatim>\<open>Permission.d.ts\<close>. The constructor resolves the
  query with \<open>getUnionAttrsOfRoles\<close>; \<^verbatim>\<open>attributes\<close> is the unioned list and \<^verbatim>\<open>granted\<close> says
  that this list is not empty.
\<close>

record permission =
  p_attributes :: attrs
  p_granted :: bool

definition Permission_new ::
  "(attrs \<Rightarrow> attrs \<Rightarrow> attrs) \<Rightarrow> nat \<Rightarrow> grants \<Rightarrow> query_info \<Rightarrow> error + permission" where
  "Permission_new glob_union fuel g query =
     (case getUnionAttrsOfRoles glob_union fuel g query of
        Inl e \<Rightarrow> Inl e
      | Inr attributes \<Rightarrow> Inr \<lparr>p_attributes = attributes, p_granted = (attributes \<noteq> [])\<rparr>)"

section \<open>The AccessControl instance\<close>

text \<open>
  The grants object of an instance is an object with an identity: the \<^verbatim>\<open>Access\<close> and
  \<^verbatim>\<open>Query\<close> objects keep the object that the instance held when they were made, and
  \<^verbatim>\<open>setGrants\<close> and \<^verbatim>\<open>reset\<close> make the instance hold another one. The record \<open>ac\<close> is the
  instance together with the grants objects it has held: \<open>ac_grants\<close> is the content of
  \<^verbatim>\<open>_grants\<close>, \<open>ac_frozen\<close> whether that object is frozen, \<open>ac_id\<close> its identity,
  \<open>ac_isLocked\<close> the private flag \<^verbatim>\<open>_isLocked\<close>, and \<open>ac_old\<close> lists the objects that the
  instance held before, each with its identity, its content and whether it is frozen.
  The getter \<^verbatim>\<open>isLocked\<close> is \<open>isLocked\<close>.

  The methods of the instance end with a call of \<^verbatim>\<open>this.store(this._grants)\<close>, the hook
  through which a caller persists the grants; persistence is outside the specification.
  The instance is one that was constructed without the argument \<^verbatim>\<open>store\<close>, so the callback
  is \<^verbatim>\<open>function () { }\<close> and its calls have no effect; a callback of the caller that throws
  or that writes to the grants is not covered. An object that the caller hands to
  \<^verbatim>\<open>setGrants\<close> or to the constructor is a plain object that is not frozen and that, unless
  it is a grants object of the instance, has no object in common with one; and the caller
  writes to no grants object but through the methods below.
\<close>

record ac =
  ac_grants :: grants
  ac_frozen :: bool
  ac_isLocked :: bool
  ac_id :: nat
  ac_old :: "(nat \<times> grants \<times> bool) list"

definition isLocked :: "ac \<Rightarrow> bool" where
  "isLocked a \<longleftrightarrow> ac_isLocked a \<and> ac_frozen a"

definition deepFreeze :: "ac \<Rightarrow> ac" where
  "deepFreeze a = a\<lparr>ac_frozen := True\<rparr>"

definition lockAC :: "ac \<Rightarrow> (error + unit) \<times> ac" where
  "lockAC a =
     (if ac_grants a = [] then (Inl LockEmpty, a)
      else if isLocked a \<and> ac_frozen a then (Inr (), a\<lparr>ac_isLocked := True\<rparr>)
      else (Inr (), (deepFreeze a)\<lparr>ac_isLocked := True\<rparr>))"

text \<open>
  \<open>object_of a i\<close> is the grants object with the identity \<open>i\<close>, as content and frozen
  flag: the object that the instance holds, or one that it held before. An identity that
  the instance never had is an object of the caller that nothing was written to, an empty
  one. \<open>write_object\<close> is a write to the object with the identity \<open>i\<close> that leaves it with
  the content \<open>g\<close>.
\<close>

definition object_of :: "ac \<Rightarrow> nat \<Rightarrow> grants \<times> bool" where
  "object_of a i =
     (if i = ac_id a then (ac_grants a, ac_frozen a)
      else (case map_of (ac_old a) i of Some obj \<Rightarrow> obj | None \<Rightarrow> ([], False)))"

definition write_object :: "ac \<Rightarrow> nat \<Rightarrow> grants \<Rightarrow> ac" where
  "write_object a i g =
     (if i = ac_id a then a\<lparr>ac_grants := g\<rparr>
      else a\<lparr>ac_old := AList.update i (g, snd (object_of a i)) (ac_old a)\<rparr>)"

text \<open>
  \<open>replace_object a g\<close> is the assignment \<^verbatim>\<open>this._grants = o\<close> for an object \<open>o\<close> with the
  content \<open>g\<close> that the instance did not hold before (the \<^verbatim>\<open>{}\<close> of \<^verbatim>\<open>reset\<close>, the object
  built from an array of records, an object of the caller): it gets an identity that is
  not in use, and the object held so far joins the old ones. \<open>adopt a i\<close> is the same
  assignment for the object with the identity \<open>i\<close>, which the instance holds or held
  before.
\<close>

definition new_id :: "ac \<Rightarrow> nat" where
  "new_id a = Suc (fold max (map fst (ac_old a)) (ac_id a))"

definition replace_object :: "ac \<Rightarrow> grants \<Rightarrow> ac" where
  "replace_object a g =
     a\<lparr>ac_grants := g, ac_frozen := False, ac_id := new_id a,
       ac_old := AList.update (ac_id a) (ac_grants a, ac_frozen a) (ac_old a)\<rparr>"

definition adopt :: "ac \<Rightarrow> nat \<Rightarrow> ac" where
  "adopt a i =
     (if i = ac_id a then a
      else a\<lparr>ac_grants := fst (object_of a i), ac_frozen := snd (object_of a i), ac_id := i,
             ac_old := AList.update (ac_id a) (ac_grants a, ac_frozen a)
                         (AList.delete i (ac_old a))\<rparr>)"

text \<open>
  The argument of \<^verbatim>\<open>setGrants\<close> and of the constructor: \<open>GObject g\<close> is an object of the
  caller with the content \<open>g\<close>; \<open>GHeld i\<close> is the grants object with the identity \<open>i\<close>,
  which the caller has from \<^verbatim>\<open>getGrants()\<close> or gave to \<^verbatim>\<open>setGrants\<close> before; \<open>GArray\<close> is an
  array of records; \<open>GBoolOrEmpty\<close> is \<^verbatim>\<open>true\<close>, \<^verbatim>\<open>false\<close> or \<^verbatim>\<open>''\<close>, and \<open>GOther\<close> any other
  value that is neither an object nor an array: a number, a string that is not empty, a
  function, and for \<^verbatim>\<open>setGrants\<close> also \<^verbatim>\<open>null\<close> and \<^verbatim>\<open>undefined\<close>.

  \<^verbatim>\<open>setGrants\<close> assigns to \<^verbatim>\<open>_grants\<close> when \<open>getInspectedGrants\<close> has returned. When it
  throws, nothing is assigned; an object of the instance that was inspected keeps what
  the inspection wrote into it.
\<close>

datatype grants_input =
  GObject grants | GHeld nat | GArray "access_info list" | GBoolOrEmpty | GOther

definition inspect_arg_of :: "ac \<Rightarrow> grants_input \<Rightarrow> inspect_arg" where
  "inspect_arg_of a grantsObject =
     (case grantsObject of
        GObject g \<Rightarrow> IObject g False
      | GHeld i \<Rightarrow> IObject (fst (object_of a i)) (snd (object_of a i))
      | GArray items \<Rightarrow> IArray items
      | GBoolOrEmpty \<Rightarrow> IOther
      | GOther \<Rightarrow> IOther)"

definition AC_setGrants :: "nat \<Rightarrow> ac \<Rightarrow> grants_input \<Rightarrow> (error + unit) \<times> ac" where
  "AC_setGrants fuel a grantsObject =
     (if isLocked a then (Inl ErrLock, a)
      else
        (case getInspectedGrants fuel (inspect_arg_of a grantsObject) of
           (Inl e, g') \<Rightarrow>
             (Inl e, case grantsObject of GHeld i \<Rightarrow> write_object a i g' | _ \<Rightarrow> a)
         | (Inr _, g') \<Rightarrow>
             (Inr (),
              case grantsObject of
                GHeld i \<Rightarrow> adopt (write_object a i g') i
              | _ \<Rightarrow> replace_object a g')))"

text \<open>
  The constructor, \<^verbatim>\<open>new AccessControl(grants)\<close>: it rejects \<^verbatim>\<open>true\<close>, \<^verbatim>\<open>false\<close> and \<^verbatim>\<open>''\<close>, and
  \<^verbatim>\<open>setGrants\<close> gives the new instance its first grants object. No instance has held an
  object before, so \<open>GHeld i\<close> is an object of the caller that nothing was written to.
  An argument that is omitted, \<^verbatim>\<open>undefined\<close> or \<^verbatim>\<open>null\<close> is replaced by \<^verbatim>\<open>{}\<close>, which is
  \<open>GObject []\<close>: \<open>AC_init\<close> is the instance that \<^verbatim>\<open>new AccessControl()\<close> returns.
\<close>

definition AC_new :: "nat \<Rightarrow> grants_input \<Rightarrow> error + ac" where
  "AC_new fuel grantsObject =
     (case grantsObject of
        GBoolOrEmpty \<Rightarrow> Inl InvalidInitialGrants
      | _ \<Rightarrow>
          (case getInspectedGrants fuel
                  (case grantsObject of
                     GObject g \<Rightarrow> IObject g False
                   | GHeld i \<Rightarrow> IObject [] False
                   | GArray items \<Rightarrow> IArray items
                   | _ \<Rightarrow> IOther) of
             (Inl e, g') \<Rightarrow> Inl e
           | (Inr _, g') \<Rightarrow>
               Inr \<lparr>ac_grants = g', ac_frozen = False, ac_isLocked = False,
                    ac_id = (case grantsObject of GHeld i \<Rightarrow> i | _ \<Rightarrow> 0), ac_old = []\<rparr>))"

definition AC_init :: ac where
  "AC_init =
     \<lparr>ac_grants = [], ac_frozen = False, ac_isLocked = False, ac_id = 0, ac_old = []\<rparr>"

definition AC_reset :: "ac \<Rightarrow> (error + unit) \<times> ac" where
  "AC_reset a =
     (if isLocked a then (Inl ErrLock, a)
      else (Inr (), replace_object a []))"

definition AC_lock :: "ac \<Rightarrow> (error + unit) \<times> ac" where
  "AC_lock a = lockAC a"

definition AC_extendRole :: "nat \<Rightarrow> ac \<Rightarrow> strs \<Rightarrow> strs \<Rightarrow> bool \<Rightarrow> (error + unit) \<times> ac" where
  "AC_extendRole fuel a subjects extenderRoles replace =
     (if isLocked a then (Inl ErrLock, a)
      else
        (case extendRole fuel (ac_frozen a) (ac_grants a) subjects extenderRoles replace of
           (r, g) \<Rightarrow> (r, a\<lparr>ac_grants := g\<rparr>)))"

text \<open>The first loop of \<^verbatim>\<open>removeRoles\<close>; \<^verbatim>\<open>delete\<close> of a property of a frozen object throws.\<close>

fun removeRoles_each :: "bool \<Rightarrow> grants \<Rightarrow> string list \<Rightarrow> (error + unit) \<times> grants" where
  "removeRoles_each fr g [] = (Inr (), g)"
| "removeRoles_each fr g (subjectName # rest) =
     (if map_of g subjectName = None then (Inl (RemoveNonExisting subjectName), g)
      else if fr then (Inl TypeError, g)
      else removeRoles_each fr (AList.delete subjectName g) rest)"

definition prune_extend :: "string list \<Rightarrow> role \<Rightarrow> role" where
  "prune_extend subjectsToRemove subjectItem =
     (case extend_of subjectItem of
        None \<Rightarrow> subjectItem
      | Some xs \<Rightarrow>
          AList.update ''_extend_'' (Extend (subtractArray xs subjectsToRemove)) subjectItem)"

definition AC_removeRoles :: "ac \<Rightarrow> strs \<Rightarrow> (error + unit) \<times> ac" where
  "AC_removeRoles a subjects =
     (if isLocked a then (Inl ErrLock, a)
      else
        (let subjectsToRemove = toStringArray subjects in
         if subjectsToRemove = [] \<or> \<not> isFilledStringArray subjectsToRemove
         then (Inl InvalidSubjects, a)
         else
           (case removeRoles_each (ac_frozen a) (ac_grants a) subjectsToRemove of
              (Inl e, g) \<Rightarrow> (Inl e, a\<lparr>ac_grants := g\<rparr>)
            | (Inr _, g) \<Rightarrow>
                (Inr (),
                 a\<lparr>ac_grants := map (\<lambda>(n, r). (n, prune_extend subjectsToRemove r)) g\<rparr>))))"

text \<open>
  \<^verbatim>\<open>_removePermission\<close>: \<open>eachRoleResource\<close> visits every key of every subject (the
  \<^verbatim>\<open>_extend_\<close> key too). \<open>removePermission_keys\<close> is the inner loop over the keys one
  subject had when the loop began, \<open>removePermission_roles\<close> the outer loop.
\<close>

fun removePermission_keys ::
  "bool \<Rightarrow> string list \<Rightarrow> string option \<Rightarrow> role \<Rightarrow> string list \<Rightarrow> (error + unit) \<times> role" where
  "removePermission_keys fr resources actionPossession r [] = (Inr (), r)"
| "removePermission_keys fr resources actionPossession r (resource # rest) =
     (if resource \<in> set resources then
        (if truthy actionPossession then
           (case normalizeActionPossession actionPossession None of
              Inl e \<Rightarrow> (Inl e, r)
            | Inr (act, poss) \<Rightarrow>
                (case map_of r resource of
                   Some (Resource d) \<Rightarrow>
                     if fr \<and> map_of d (act @ '':'' @ poss) \<noteq> None then (Inl TypeError, r)
                     else removePermission_keys fr resources actionPossession
                            (AList.update resource (Resource (AList.delete (act @ '':'' @ poss) d)) r)
                            rest
                 | Some (Extend xs) \<Rightarrow> removePermission_keys fr resources actionPossession r rest
                 | None \<Rightarrow> (Inl TypeError, r)))
         else if fr \<and> map_of r resource \<noteq> None then (Inl TypeError, r)
         else removePermission_keys fr resources actionPossession (AList.delete resource r) rest)
      else removePermission_keys fr resources actionPossession r rest)"

fun removePermission_roles ::
  "bool \<Rightarrow> string list \<Rightarrow> string list option \<Rightarrow> string option \<Rightarrow> grants \<Rightarrow> string list \<Rightarrow>
     (error + unit) \<times> grants" where
  "removePermission_roles fr resources subjects actionPossession g [] = (Inr (), g)"
| "removePermission_roles fr resources subjects actionPossession g (subject # rest) =
     (case map_of g subject of
        None \<Rightarrow> (Inl TypeError, g)
      | Some r \<Rightarrow>
          if (case subjects of None \<Rightarrow> True | Some ss \<Rightarrow> subject \<in> set ss) then
            (case removePermission_keys fr resources actionPossession r (map fst r) of
               (Inl e, r') \<Rightarrow> (Inl e, AList.update subject r' g)
             | (Inr _, r') \<Rightarrow>
                 removePermission_roles fr resources subjects actionPossession
                   (AList.update subject r' g) rest)
          else removePermission_roles fr resources subjects actionPossession g rest)"

definition AC_removePermission ::
  "ac \<Rightarrow> strs \<Rightarrow> strs \<Rightarrow> string option \<Rightarrow> (error + unit) \<times> ac" where
  "AC_removePermission a resources subjects actionPossession =
     (let resources' = toStringArray resources in
      if resources' = [] \<or> \<not> isFilledStringArray resources' then (Inl InvalidResources, a)
      else if subjects \<noteq> Undefined \<and>
              (toStringArray subjects = [] \<or> \<not> isFilledStringArray (toStringArray subjects))
        then (Inl InvalidSubjects, a)
      else
        (case removePermission_roles (ac_frozen a) resources'
                (if subjects = Undefined then None else Some (toStringArray subjects))
                actionPossession (ac_grants a) (map fst (ac_grants a)) of
           (r, g) \<Rightarrow> (r, a\<lparr>ac_grants := g\<rparr>)))"

definition AC_removeResources :: "ac \<Rightarrow> strs \<Rightarrow> strs \<Rightarrow> (error + unit) \<times> ac" where
  "AC_removeResources a resources subjects =
     (if isLocked a then (Inl ErrLock, a)
      else AC_removePermission a resources subjects None)"

section \<open>The Access builder\<close>

text \<open>
  An \<^verbatim>\<open>Access\<close> object is its draft record \<^verbatim>\<open>_\<close> and the grants object that its constructor
  read from the instance, \<^verbatim>\<open>this._grants = ac._grants\<close>: \<open>acc_ref\<close> is the identity of that
  object. The methods write to this object, also when the instance holds another one by
  then, and none of them tests \<^verbatim>\<open>isLocked\<close>. A method returns its outcome, the builder on
  success, and the instance with its objects as the call leaves them.

  \<open>subject_or_info\<close> is the optional first argument of \<^verbatim>\<open>grant\<close>, \<^verbatim>\<open>deny\<close> and \<^verbatim>\<open>can\<close>:
  \<open>Subjects Undefined\<close> is an explicit \<^verbatim>\<open>undefined\<close>, \<open>Info i\<close> an object with one key or more
  (the record holds the four or five keys that are read, absent ones as \<open>Undefined\<close> or
  \<open>None\<close>), \<open>EmptyInfo\<close> the object \<^verbatim>\<open>{}\<close>, for which \<^verbatim>\<open>Object.keys\<close> is empty.
\<close>

datatype 'i subject_or_info = Omitted | Subjects strs | Info 'i | EmptyInfo

record access =
  acc_info :: access_info
  acc_ref :: nat

definition Access_subject :: "ac \<Rightarrow> access \<Rightarrow> strs \<Rightarrow> (error + access) \<times> ac" where
  "Access_subject a b v =
     (case preCreateRoles (snd (object_of a (acc_ref b))) (fst (object_of a (acc_ref b))) v of
        (Inl e, g) \<Rightarrow> (Inl e, write_object a (acc_ref b) g)
      | (Inr _, g) \<Rightarrow>
          (Inr (b\<lparr>acc_info := (acc_info b)\<lparr>a_subject := v\<rparr>\<rparr>), write_object a (acc_ref b) g))"

text \<open>The constructor. The new builder keeps the object that the instance holds.\<close>

definition Access_new ::
  "ac \<Rightarrow> access_info subject_or_info \<Rightarrow> bool \<Rightarrow> (error + access) \<times> ac" where
  "Access_new a subjectOrInfo denied =
     (let b = \<lparr>acc_info = empty_access\<lparr>a_denied := denied\<rparr>, acc_ref = ac_id a\<rparr> in
      case subjectOrInfo of
        Omitted \<Rightarrow> (Inr b, a)
      | Subjects Undefined \<Rightarrow> (Inr b, a)
      | Subjects v \<Rightarrow> Access_subject a b v
      | EmptyInfo \<Rightarrow> (Inl InvalidInfo, a)
      | Info i \<Rightarrow>
          (let d = resetAttributes (i\<lparr>a_denied := denied\<rparr>) in
           if isInfoFulfilled d then
             (case commitToGrants (ac_frozen a) (ac_grants a) d True of
                (Inl e, g) \<Rightarrow> (Inl e, a\<lparr>ac_grants := g\<rparr>)
              | (Inr _, g) \<Rightarrow> (Inr (b\<lparr>acc_info := d\<rparr>), a\<lparr>ac_grants := g\<rparr>))
           else (Inr (b\<lparr>acc_info := d\<rparr>), a)))"

definition Access_resource :: "access \<Rightarrow> strs \<Rightarrow> error + access" where
  "Access_resource b v =
     (case hasValidNames v of
        Inl e \<Rightarrow> Inl e
      | Inr _ \<Rightarrow> Inr (b\<lparr>acc_info := (acc_info b)\<lparr>a_resource := v\<rparr>\<rparr>))"

definition Access_attributes :: "access \<Rightarrow> strs \<Rightarrow> access" where
  "Access_attributes b v = b\<lparr>acc_info := (acc_info b)\<lparr>a_attributes := v\<rparr>\<rparr>"

definition Access_extend :: "nat \<Rightarrow> ac \<Rightarrow> access \<Rightarrow> strs \<Rightarrow> (error + access) \<times> ac" where
  "Access_extend fuel a b subjects =
     (case extendRole fuel (snd (object_of a (acc_ref b))) (fst (object_of a (acc_ref b)))
             (a_subject (acc_info b)) subjects False of
        (Inl e, g) \<Rightarrow> (Inl e, write_object a (acc_ref b) g)
      | (Inr _, g) \<Rightarrow> (Inr b, write_object a (acc_ref b) g))"

text \<open>\<^verbatim>\<open>grant\<close> and \<^verbatim>\<open>deny\<close> of a builder make a new builder on the instance \<^verbatim>\<open>_ac\<close>.\<close>

definition Access_grant ::
  "ac \<Rightarrow> access_info subject_or_info \<Rightarrow> (error + access) \<times> ac" where
  "Access_grant a subjectOrInfo =
     (case Access_new a subjectOrInfo False of
        (Inl e, a') \<Rightarrow> (Inl e, a')
      | (Inr b, a') \<Rightarrow> (Inr (Access_attributes b (Arr [''*''])), a'))"

definition Access_deny ::
  "ac \<Rightarrow> access_info subject_or_info \<Rightarrow> (error + access) \<times> ac" where
  "Access_deny a subjectOrInfo =
     (case Access_new a subjectOrInfo True of
        (Inl e, a') \<Rightarrow> (Inl e, a')
      | (Inr b, a') \<Rightarrow> (Inr (Access_attributes b (Arr [])), a'))"

definition Access_lock :: "ac \<Rightarrow> access \<Rightarrow> (error + access) \<times> ac" where
  "Access_lock a b = (case lockAC a of (Inl e, a') \<Rightarrow> (Inl e, a') | (Inr _, a') \<Rightarrow> (Inr b, a'))"

text \<open>The draft that \<^verbatim>\<open>_prepareAndCommit\<close> commits.\<close>

definition prepared ::
  "access_info \<Rightarrow> string option \<Rightarrow> string option \<Rightarrow> strs \<Rightarrow> strs \<Rightarrow> access_info" where
  "prepared d action possession resource attributes =
     (let d1 = d\<lparr>a_action := action, a_possession := possession\<rparr>;
          d2 = (if strs_truthy resource then d1\<lparr>a_resource := resource\<rparr> else d1)
      in if a_denied d2 then d2\<lparr>a_attributes := Arr []\<rparr>
         else d2\<lparr>a_attributes :=
                   (if strs_truthy attributes then Arr (toStringArray attributes)
                    else Arr [''*''])\<rparr>)"

definition Access_prepareAndCommit ::
  "ac \<Rightarrow> access \<Rightarrow> string option \<Rightarrow> string option \<Rightarrow> strs \<Rightarrow> strs \<Rightarrow> (error + access) \<times> ac" where
  "Access_prepareAndCommit a b action possession resource attributes =
     (let d = prepared (acc_info b) action possession resource attributes in
      case commitToGrants (snd (object_of a (acc_ref b))) (fst (object_of a (acc_ref b))) d False of
        (Inl e, g) \<Rightarrow> (Inl e, write_object a (acc_ref b) g)
      | (Inr _, g) \<Rightarrow>
          (Inr (b\<lparr>acc_info := d\<lparr>a_attributes := Undefined\<rparr>\<rparr>), write_object a (acc_ref b) g))"

definition Access_createOwn where
  "Access_createOwn a b = Access_prepareAndCommit a b (Some ''create'') (Some ''own'')"

definition Access_createAny where
  "Access_createAny a b = Access_prepareAndCommit a b (Some ''create'') (Some ''any'')"

definition Access_readOwn where
  "Access_readOwn a b = Access_prepareAndCommit a b (Some ''read'') (Some ''own'')"

definition Access_readAny where
  "Access_readAny a b = Access_prepareAndCommit a b (Some ''read'') (Some ''any'')"

definition Access_updateOwn where
  "Access_updateOwn a b = Access_prepareAndCommit a b (Some ''update'') (Some ''own'')"

definition Access_updateAny where
  "Access_updateAny a b = Access_prepareAndCommit a b (Some ''update'') (Some ''any'')"

definition Access_deleteOwn where
  "Access_deleteOwn a b = Access_prepareAndCommit a b (Some ''delete'') (Some ''own'')"

definition Access_deleteAny where
  "Access_deleteAny a b = Access_prepareAndCommit a b (Some ''delete'') (Some ''any'')"

text \<open>\<^verbatim>\<open>do('resource:action:possession')\<close>.\<close>

definition Access_do :: "ac \<Rightarrow> access \<Rightarrow> string \<Rightarrow> strs \<Rightarrow> (error + access) \<times> ac" where
  "Access_do a b action attributes =
     (let segments = js_split CHR '':'' action in
      Access_prepareAndCommit a b (js_nth segments 1) (js_nth segments 2)
        (case js_nth segments 0 of None \<Rightarrow> Undefined | Some r \<Rightarrow> Str r) attributes)"

definition AC_grant ::
  "ac \<Rightarrow> access_info subject_or_info \<Rightarrow> (error + access) \<times> ac" where
  "AC_grant a subject =
     (if isLocked a then (Inl ErrLock, a)
      else if subject = Subjects Undefined then (Inl InvalidSubjects, a)
      else Access_new a subject False)"

definition AC_deny ::
  "ac \<Rightarrow> access_info subject_or_info \<Rightarrow> (error + access) \<times> ac" where
  "AC_deny a subject =
     (if isLocked a then (Inl ErrLock, a)
      else if subject = Subjects Undefined then (Inl InvalidSubjects, a)
      else Access_new a subject True)"

section \<open>The Query builder\<close>

text \<open>
  A \<^verbatim>\<open>Query\<close> object is its draft \<^verbatim>\<open>_\<close> and the grants object that \<^verbatim>\<open>can\<close> read from the
  instance, of which \<open>qry_ref\<close> is the identity. The methods assign to the draft; an action
  method resolves the draft against that object as it is when the method is called. The
  query is returned with the outcome so that what a method leaves behind can be stated.
  \<^verbatim>\<open>Action\<close> and \<^verbatim>\<open>Possession\<close> are the enumerations of the lower-case names.
\<close>

record query =
  qry_info :: query_info
  qry_ref :: nat

definition Query_new :: "nat \<Rightarrow> query_info subject_or_info \<Rightarrow> error + query" where
  "Query_new i subjectOrInfo =
     (case subjectOrInfo of
        Omitted \<Rightarrow> Inr \<lparr>qry_info = empty_query, qry_ref = i\<rparr>
      | Subjects Undefined \<Rightarrow> Inr \<lparr>qry_info = empty_query, qry_ref = i\<rparr>
      | Subjects v \<Rightarrow> Inr \<lparr>qry_info = empty_query\<lparr>q_subject := v\<rparr>, qry_ref = i\<rparr>
      | EmptyInfo \<Rightarrow> Inl InvalidInfo
      | Info info \<Rightarrow> Inr \<lparr>qry_info = info, qry_ref = i\<rparr>)"

definition Query_subject :: "query \<Rightarrow> strs \<Rightarrow> query" where
  "Query_subject q v = q\<lparr>qry_info := (qry_info q)\<lparr>q_subject := v\<rparr>\<rparr>"

definition Query_resource :: "query \<Rightarrow> string option \<Rightarrow> query" where
  "Query_resource q v = q\<lparr>qry_info := (qry_info q)\<lparr>q_resource := v\<rparr>\<rparr>"

definition Query_getPermission ::
  "(attrs \<Rightarrow> attrs \<Rightarrow> attrs) \<Rightarrow> nat \<Rightarrow> ac \<Rightarrow> query \<Rightarrow> string \<Rightarrow> string \<Rightarrow> string option \<Rightarrow>
     (error + permission) \<times> query" where
  "Query_getPermission glob_union fuel a q action possession resource =
     (let i1 = (qry_info q)\<lparr>q_action := Some action, q_possession := Some possession\<rparr>;
          i2 = (if truthy resource then i1\<lparr>q_resource := resource\<rparr> else i1);
          q' = q\<lparr>qry_info := i2\<rparr>
      in (Permission_new glob_union fuel (fst (object_of a (qry_ref q'))) (qry_info q'), q'))"

definition Query_createOwn where
  "Query_createOwn glob_union fuel a q = Query_getPermission glob_union fuel a q ''create'' ''own''"

definition Query_createAny where
  "Query_createAny glob_union fuel a q = Query_getPermission glob_union fuel a q ''create'' ''any''"

definition Query_readOwn where
  "Query_readOwn glob_union fuel a q = Query_getPermission glob_union fuel a q ''read'' ''own''"

definition Query_readAny where
  "Query_readAny glob_union fuel a q = Query_getPermission glob_union fuel a q ''read'' ''any''"

definition Query_updateOwn where
  "Query_updateOwn glob_union fuel a q = Query_getPermission glob_union fuel a q ''update'' ''own''"

definition Query_updateAny where
  "Query_updateAny glob_union fuel a q = Query_getPermission glob_union fuel a q ''update'' ''any''"

definition Query_deleteOwn where
  "Query_deleteOwn glob_union fuel a q = Query_getPermission glob_union fuel a q ''delete'' ''own''"

definition Query_deleteAny where
  "Query_deleteAny glob_union fuel a q = Query_getPermission glob_union fuel a q ''delete'' ''any''"

definition AC_can :: "ac \<Rightarrow> query_info subject_or_info \<Rightarrow> error + query" where
  "AC_can a subject =
     (if subject = Subjects Undefined then Inl InvalidSubjects
      else Query_new (ac_id a) subject)"


definition AC_getInheritedRolesOf :: "nat \<Rightarrow> ac \<Rightarrow> string \<Rightarrow> error + string list" where
  "AC_getInheritedRolesOf fuel a subject =
     (case getRoleHierarchyOf fuel (ac_grants a) subject None of
        Inl e \<Rightarrow> Inl e
      | Inr subjects \<Rightarrow> Inr (tl subjects))"

section \<open>Method chains and scenarios\<close>

text \<open>
  \<open>chain\<close> is a call on the builder that the previous call returned, as in
  \<^verbatim>\<open>ac.grant('admin').createAny('profile')\<close>: an exception ends the chain. \<open>ask\<close> is the
  same for \<^verbatim>\<open>ac.can(...).createAny(...)\<close> and yields the permission.
\<close>

definition chain ::
  "(error + 'a) \<times> ac \<Rightarrow> (ac \<Rightarrow> 'a \<Rightarrow> (error + 'b) \<times> ac) \<Rightarrow> (error + 'b) \<times> ac" where
  "chain r f = (case r of (Inl e, a) \<Rightarrow> (Inl e, a) | (Inr d, a) \<Rightarrow> f a d)"

definition ask ::
  "error + query \<Rightarrow> (query \<Rightarrow> (error + permission) \<times> query) \<Rightarrow> error + permission" where
  "ask r f = (case r of Inl e \<Rightarrow> Inl e | Inr q \<Rightarrow> fst (f q))"

text \<open>\<^verbatim>\<open>grant('admin').createAny('profile')\<close>, \<^verbatim>\<open>deny('admin').createAny('profile')\<close> and
  \<^verbatim>\<open>can('admin').createAny('profile')\<close>.\<close>

definition grant_admin :: "ac \<Rightarrow> (error + access) \<times> ac" where
  "grant_admin a =
     chain (AC_grant a (Subjects (Str ''admin'')))
       (\<lambda>a d. Access_createAny a d (Str ''profile'') Undefined)"

definition deny_admin :: "ac \<Rightarrow> (error + access) \<times> ac" where
  "deny_admin a =
     chain (AC_deny a (Subjects (Str ''admin'')))
       (\<lambda>a d. Access_createAny a d (Str ''profile'') Undefined)"

definition can_admin :: "(attrs \<Rightarrow> attrs \<Rightarrow> attrs) \<Rightarrow> nat \<Rightarrow> ac \<Rightarrow> error + permission" where
  "can_admin glob_union fuel a =
     ask (AC_can a (Subjects (Str ''admin'')))
       (\<lambda>q. Query_createAny glob_union fuel a q (Some ''profile''))"

definition admin_granted :: grants where
  "admin_granted = [(''admin'', [(''profile'', Resource [(''create:any'', [''*''])])])]"

definition admin_denied :: grants where
  "admin_denied = [(''admin'', [(''profile'', Resource [(''create:any'', [])])])]"

text \<open>The store of one role whose \<^verbatim>\<open>read:any\<close> entry for \<^verbatim>\<open>doc\<close> is a denial, and one in which
  \<^verbatim>\<open>user\<close> holds \<^verbatim>\<open>read:any\<close> only and inherits from \<^verbatim>\<open>guest\<close>.\<close>

definition denied_any :: grants where
  "denied_any = [(''user'', [(''doc'', Resource [(''read:any'', [])])])]"

definition user_guest :: grants where
  "user_guest =
     [(''user'', [(''doc'', Resource [(''read:any'', [''*'', ''!secret''])]),
                  (''_extend_'', Extend [''guest''])]),
      (''guest'', [(''doc'', Resource [(''read:any'', [''title''])])])]"

text \<open>\<^verbatim>\<open>can(subjects).readOwn(R)\<close> and \<^verbatim>\<open>can(subjects).readAny(R)\<close>.\<close>

definition can_readOwn ::
  "(attrs \<Rightarrow> attrs \<Rightarrow> attrs) \<Rightarrow> nat \<Rightarrow> ac \<Rightarrow> strs \<Rightarrow> string \<Rightarrow> error + permission" where
  "can_readOwn glob_union fuel a subjects R =
     ask (AC_can a (Subjects subjects)) (\<lambda>q. Query_readOwn glob_union fuel a q (Some R))"

definition can_readAny ::
  "(attrs \<Rightarrow> attrs \<Rightarrow> attrs) \<Rightarrow> nat \<Rightarrow> ac \<Rightarrow> strs \<Rightarrow> string \<Rightarrow> error + permission" where
  "can_readAny glob_union fuel a subjects R =
     ask (AC_can a (Subjects subjects)) (\<lambda>q. Query_readAny glob_union fuel a q (Some R))"

text \<open>No role of the list has the key \<^verbatim>\<open>action:own\<close> under the resource.\<close>

definition no_own_key :: "grants \<Rightarrow> string \<Rightarrow> string \<Rightarrow> string list \<Rightarrow> bool" where
  "no_own_key g resource action roles \<longleftrightarrow>
     list_all
       (\<lambda>s. case map_of g s of
               Some r \<Rightarrow>
                 (case map_of r resource of
                    Some (Resource d) \<Rightarrow> map_of d (action @ '':own'') = None
                  | _ \<Rightarrow> True)
             | None \<Rightarrow> True)
       roles"

text \<open>The instance of C1 after \<^verbatim>\<open>lock()\<close>, and the draft of the builder that
  \<^verbatim>\<open>grant('admin').createAny('profile')\<close> returned before.\<close>

definition locked_admin :: ac where
  "locked_admin =
     \<lparr>ac_grants = admin_granted, ac_frozen = True, ac_isLocked = True, ac_id = 0, ac_old = []\<rparr>"

definition admin_builder :: access where
  "admin_builder =
     \<lparr>acc_info =
        \<lparr>a_subject = Str ''admin'', a_resource = Str ''profile'', a_action = Some ''create'',
         a_possession = Some ''any'', a_attributes = Undefined, a_denied = False\<rparr>,
      acc_ref = 0\<rparr>"


text \<open>Two roles without grants, and the same after \<^verbatim>\<open>extendRole('a', ['b'])\<close>.\<close>

definition two_roles :: grants where
  "two_roles = [(''a'', []), (''b'', [])]"

definition a_inherits_b :: grants where
  "a_inherits_b = [(''a'', [(''_extend_'', Extend [''b''])]), (''b'', [])]"

text \<open>An instance that has not been locked, with the given grants in its first object.\<close>

definition unlocked :: "grants \<Rightarrow> ac" where
  "unlocked g =
     \<lparr>ac_grants = g, ac_frozen = False, ac_isLocked = False, ac_id = 0, ac_old = []\<rparr>"

text \<open>
  The names that \<open>validName\<close> accepts, for the keys of a role (resource names, or the
  reserved key of the inheritance list) and for the subjects of a store.
\<close>

definition role_keys_ok :: "role \<Rightarrow> bool" where
  "role_keys_ok r \<longleftrightarrow> (\<forall>k \<in> set (map fst r). k = ''_extend_'' \<or> validName_ok k)"

definition names_ok :: "grants \<Rightarrow> bool" where
  "names_ok g \<longleftrightarrow>
     (\<forall>s \<in> set (map fst g).
        validName_ok s \<and> (case map_of g s of Some r \<Rightarrow> role_keys_ok r | None \<Rightarrow> True))"

text \<open>
  The instances that the public operations produce from a new instance, whatever their
  arguments and whether they return or throw. A builder is any draft with any grants
  object: its methods are \<open>Access_subject\<close>, \<open>Access_extend\<close>, \<open>Access_lock\<close>,
  \<open>Access_grant\<close>, \<open>Access_deny\<close> and the commits, which all are
  \<open>Access_prepareAndCommit\<close>.
\<close>

inductive reachable :: "ac \<Rightarrow> bool" where
  r_new: "AC_new fuel inp = Inr a \<Longrightarrow> reachable a"
| r_setGrants: "reachable a \<Longrightarrow> reachable (snd (AC_setGrants fuel a inp))"
| r_reset: "reachable a \<Longrightarrow> reachable (snd (AC_reset a))"
| r_lock: "reachable a \<Longrightarrow> reachable (snd (AC_lock a))"
| r_extendRole: "reachable a \<Longrightarrow> reachable (snd (AC_extendRole fuel a subjects exts replace))"
| r_removeRoles: "reachable a \<Longrightarrow> reachable (snd (AC_removeRoles a subjects))"
| r_removeResources: "reachable a \<Longrightarrow> reachable (snd (AC_removeResources a resources subjects))"
| r_grant: "reachable a \<Longrightarrow> reachable (snd (AC_grant a arg))"
| r_deny: "reachable a \<Longrightarrow> reachable (snd (AC_deny a arg))"
| r_access_grant: "reachable a \<Longrightarrow> reachable (snd (Access_grant a arg))"
| r_access_deny: "reachable a \<Longrightarrow> reachable (snd (Access_deny a arg))"
| r_access_subject: "reachable a \<Longrightarrow> reachable (snd (Access_subject a b v))"
| r_access_extend: "reachable a \<Longrightarrow> reachable (snd (Access_extend fuel a b subjects))"
| r_access_lock: "reachable a \<Longrightarrow> reachable (snd (Access_lock a b))"
| r_access_commit:
    "reachable a \<Longrightarrow>
     reachable (snd (Access_prepareAndCommit a b action possession resource attributes))"

text \<open>\<^verbatim>\<open>actions\<close> and \<^verbatim>\<open>possessions\<close> of \<^verbatim>\<open>enums/index.ts\<close>, and the eight normalized keys.\<close>

definition actions :: "string list" where
  "actions = [''create'', ''read'', ''update'', ''delete'']"

definition possessions :: "string list" where
  "possessions = [''own'', ''any'']"

definition action_possession_keys :: "string list" where
  "action_possession_keys = concat (map (\<lambda>a. map (\<lambda>p. a @ '':'' @ p) possessions) actions)"

text \<open>One step of the store order that \<open>extendRole\<close> respects: every subject of the later
  store is a subject of the earlier one, with no new key but \<^verbatim>\<open>_extend_\<close>.\<close>

definition keys_le :: "grants \<Rightarrow> grants \<Rightarrow> bool" where
  "keys_le g g' \<longleftrightarrow>
     (\<forall>s r'. map_of g' s = Some r' \<longrightarrow>
        (\<exists>r. map_of g s = Some r \<and> set (map fst r') \<subseteq> insert ''_extend_'' (set (map fst r))))"

text \<open>A nested mapping with a key that is no action-possession key, and a flat record
  with an action that is none of the four.\<close>

definition odd_key :: grants where
  "odd_key = [(''admin'', [(''profile'', Resource [(''foo'', [''*''])])])]"

definition fly_record :: access_info where
  "fly_record =
     \<lparr>a_subject = Str ''admin'', a_resource = Str ''profile'', a_action = Some ''fly'',
      a_possession = None, a_attributes = Undefined, a_denied = False\<rparr>"

text \<open>
  The instance of \<open>grant_admin\<close> after \<^verbatim>\<open>reset()\<close>, then after
  \<^verbatim>\<open>grant('user').readAny('doc')\<close>, then after \<^verbatim>\<open>lock()\<close>: the object with the grant of
  \<^verbatim>\<open>admin\<close> is an old one by then.
\<close>

definition after_reset :: ac where
  "after_reset =
     \<lparr>ac_grants = [], ac_frozen = False, ac_isLocked = False, ac_id = 1,
      ac_old = [(0, admin_granted, False)]\<rparr>"

definition grant_user_doc :: "ac \<Rightarrow> (error + access) \<times> ac" where
  "grant_user_doc a =
     chain (AC_grant a (Subjects (Str ''user'')))
       (\<lambda>a b. Access_readAny a b (Str ''doc'') Undefined)"

definition user_after_reset :: ac where
  "user_after_reset =
     \<lparr>ac_grants = [(''user'', [(''doc'', Resource [(''read:any'', [''*''])])])], ac_frozen = False,
      ac_isLocked = False, ac_id = 1, ac_old = [(0, admin_granted, False)]\<rparr>"

definition locked_after_reset :: ac where
  "locked_after_reset =
     \<lparr>ac_grants = [(''user'', [(''doc'', Resource [(''read:any'', [''*''])])])], ac_frozen = True,
      ac_isLocked = True, ac_id = 1, ac_old = [(0, admin_granted, False)]\<rparr>"

text \<open>
  A store in which \<^verbatim>\<open>a\<close> extends \<^verbatim>\<open>ghost\<close>; the same after \<^verbatim>\<open>ghost\<close> was deleted while the list
  of \<^verbatim>\<open>a\<close> still names it; and that store after \<^verbatim>\<open>extendRole('a', ['b'])\<close>.
\<close>

definition ghost_start :: grants where
  "ghost_start = [(''a'', [(''_extend_'', Extend [''ghost''])]), (''ghost'', []), (''b'', [])]"

definition ghost_dangling :: grants where
  "ghost_dangling = [(''a'', [(''_extend_'', Extend [''ghost''])]), (''b'', [])]"

definition ghost_extended :: grants where
  "ghost_extended = [(''a'', [(''_extend_'', Extend [''ghost'', ''b''])]), (''b'', [])]"






text \<open>The names are as \<open>names_ok\<close> says in every grants object: the one that the instance
  holds and those it held before.\<close>

definition objects_ok :: "ac \<Rightarrow> bool" where
  "objects_ok a \<longleftrightarrow>
     names_ok (ac_grants a) \<and> (\<forall>i g fr. map_of (ac_old a) i = Some (g, fr) \<longrightarrow> names_ok g)"

text \<open>
  The grants that a store holds, as a table: for a subject, a resource and a key the
  attribute list, if the store has one there.
\<close>

definition table_of :: "grants \<Rightarrow> string \<Rightarrow> string \<Rightarrow> string \<Rightarrow> attrs option" where
  "table_of g s r k =
     (case map_of g s of
        None \<Rightarrow> None
      | Some role \<Rightarrow> (case map_of role r of Some (Resource d) \<Rightarrow> map_of d k | _ \<Rightarrow> None))"













section \<open>The query path with object identities\<close>

text \<open>
  Resolving a query reads the grants and writes to objects. To state what it writes to,
  the arrays and the query records that it handles are objects with an address: the heap
  is the list of the objects allocated so far, an address an index into it, and a new
  object is put at the end. A \<^verbatim>\<open>string | string[]\<close> value holds an array by its address.
  In the definitions below every assignment and every array that the source creates is
  a write to the heap or an allocation; what the source only reads is read through
  \<open>array_at\<close>, \<open>record_at\<close> and \<open>grants_at\<close>. The one exception is \<open>getFlatRoles\<close>: it
  and \<open>getRoleHierarchyOf\<close> build their result from \<^verbatim>\<open>[subjectName]\<close> and with \<open>uniqConcat\<close>,
  which pushes to the \<^verbatim>\<open>concat()\<close> of its first argument and reads the second, so they
  write to arrays of their own only, and the result is the list of names that the
  function on contents returns.
\<close>

datatype ref_strs = RUndefined | RStr string | RArr nat

record qrecord =
  r_subject :: ref_strs
  r_resource :: "string option"
  r_action :: "string option"
  r_possession :: "string option"

datatype heap_object = Array "string list" | Record qrecord

type_synonym heap = "heap_object list"

definition alloc :: "heap \<Rightarrow> heap_object \<Rightarrow> nat \<times> heap" where
  "alloc h obj = (length h, h @ [obj])"

definition array_at :: "heap \<Rightarrow> nat \<Rightarrow> string list" where
  "array_at h a = (case js_nth h a of Some (Array xs) \<Rightarrow> xs | _ \<Rightarrow> [])"

definition record_at :: "heap \<Rightarrow> nat \<Rightarrow> qrecord option" where
  "record_at h a = (case js_nth h a of Some (Record r) \<Rightarrow> Some r | _ \<Rightarrow> None)"

text \<open>An assignment to properties of the record at an address. On an array it would add a
  named property, which no one reads, and leave the elements as they are.\<close>

definition assign :: "heap \<Rightarrow> nat \<Rightarrow> (qrecord \<Rightarrow> qrecord) \<Rightarrow> heap" where
  "assign h a f = (case record_at h a of Some r \<Rightarrow> h[a := Record (f r)] | None \<Rightarrow> h)"

text \<open>\<^verbatim>\<open>arr.concat()\<close>, a new array with the elements of the array at an address.\<close>

definition concat_copy :: "heap \<Rightarrow> nat \<Rightarrow> nat \<times> heap" where
  "concat_copy h a = alloc h (Array (array_at h a))"

text \<open>
  The grants object, its attribute arrays and inheritance arrays held by their
  addresses: \<open>commitToGrants\<close> stores the array that it is given under every subject and
  resource of a record, so that entries share an array with one another and with the
  caller. \<open>grants_at\<close> is the content of the grants, as the functions above take it.
\<close>

datatype ref_value = RResource "(string \<times> nat) list" | RExtend nat

type_synonym ref_role = "(string \<times> ref_value) list"
type_synonym ref_grants = "(string \<times> ref_role) list"

definition value_at :: "heap \<Rightarrow> ref_value \<Rightarrow> role_value" where
  "value_at h v =
     (case v of
        RResource d \<Rightarrow> Resource (map (\<lambda>(k, a). (k, array_at h a)) d)
      | RExtend a \<Rightarrow> Extend (array_at h a))"

definition grants_at :: "heap \<Rightarrow> ref_grants \<Rightarrow> grants" where
  "grants_at h rg = map (\<lambda>(s, role). (s, map (\<lambda>(r, v). (r, value_at h v)) role)) rg"

text \<open>The addresses that the grants hold, and that all of them are allocated.\<close>

definition refs_of_value :: "ref_value \<Rightarrow> nat list" where
  "refs_of_value v = (case v of RResource d \<Rightarrow> map snd d | RExtend a \<Rightarrow> [a])"

definition refs_of :: "ref_grants \<Rightarrow> nat list" where
  "refs_of rg = concat (map (\<lambda>(s, role). concat (map (\<lambda>(r, v). refs_of_value v) role)) rg)"

definition allocated :: "heap \<Rightarrow> ref_grants \<Rightarrow> bool" where
  "allocated h rg \<longleftrightarrow> list_all (\<lambda>a. a < length h) (refs_of rg)"

text \<open>\<open>toStringArray\<close> returns the array it is given, and a new array otherwise.\<close>

definition toStringArray_ref :: "heap \<Rightarrow> ref_strs \<Rightarrow> nat \<times> heap" where
  "toStringArray_ref h v =
     (case v of
        RArr a \<Rightarrow> (a, h)
      | RStr s \<Rightarrow> alloc h (Array (toStringArray (Str s)))
      | RUndefined \<Rightarrow> alloc h (Array []))"

text \<open>\<open>normalizeActionPossession\<close> assigns the action before it checks the possession.\<close>

definition normalizeActionPossession_ref :: "heap \<Rightarrow> nat \<Rightarrow> (error + unit) \<times> heap" where
  "normalizeActionPossession_ref h c =
     (case record_at h c of
        None \<Rightarrow> (Inl InvalidAction, h)
      | Some r \<Rightarrow>
          (case r_action r of
             None \<Rightarrow> (Inl InvalidAction, h)
           | Some a \<Rightarrow>
               (let s = js_split CHR '':'' a;
                    h1 = assign h c
                           (\<lambda>r. r\<lparr>r_action := Some (js_toLowerCase (js_trim (js_str (js_nth s 0))))\<rparr>);
                    poss = (if truthy (r_possession r) then r_possession r else js_nth s 1)
                in if truthy poss
                   then (if poss \<noteq> Some ''any'' \<and> poss \<noteq> Some ''own''
                         then (Inl (InvalidPossession (js_str poss)), h1)
                         else (Inr (), assign h1 c (\<lambda>r. r\<lparr>r_possession := poss\<rparr>)))
                   else (Inr (), assign h1 c (\<lambda>r. r\<lparr>r_possession := Some ''any''\<rparr>)))))"

text \<open>\<open>normalizeQueryInfo\<close>: \<^verbatim>\<open>Object.assign({}, query)\<close> allocates the clone, and every
  assignment that follows is to the clone. The result is the address of the clone. An
  argument that is no record is not of the type \<^verbatim>\<open>object\<close>.\<close>

definition normalizeQueryInfo_ref :: "heap \<Rightarrow> nat \<Rightarrow> (error + nat) \<times> heap" where
  "normalizeQueryInfo_ref h q =
     (case record_at h q of
        None \<Rightarrow> (Inl InvalidInfo, h)
      | Some r \<Rightarrow>
          (case alloc h (Record r) of
             (c, h1) \<Rightarrow>
               (case toStringArray_ref h1 (r_subject r) of
                  (sa, h2) \<Rightarrow>
                    (let h3 = assign h2 c (\<lambda>r. r\<lparr>r_subject := RArr sa\<rparr>) in
                     if \<not> isFilledStringArray (array_at h3 sa) then (Inl InvalidSubjects, h3)
                     else
                       (case r_resource r of
                          None \<Rightarrow> (Inl InvalidResource, h3)
                        | Some res \<Rightarrow>
                            if js_trim res = [] then (Inl InvalidResource, h3)
                            else
                              (case normalizeActionPossession_ref
                                      (assign h3 c (\<lambda>r. r\<lparr>r_resource := Some (js_trim res)\<rparr>)) c of
                                 (Inl e, h5) \<Rightarrow> (Inl e, h5)
                               | (Inr _, h5) \<Rightarrow> (Inr c, h5)))))))"

text \<open>
  The \<^verbatim>\<open>forEach\<close> of \<open>getUnionAttrsOfRoles\<close> over the roles, \<open>acc\<close> being \<^verbatim>\<open>attrsList\<close>: what
  is pushed is \<open>copy_found\<close>, the \<^verbatim>\<open>concat()\<close> of the array found under
  \<^verbatim>\<open>action:possession\<close> or \<^verbatim>\<open>action:any\<close>, or of a new empty array.
\<close>

definition copy_found :: "heap \<Rightarrow> ref_value \<Rightarrow> string \<Rightarrow> string \<Rightarrow> nat \<times> heap" where
  "copy_found h resource action possession =
     (case resource of
        RResource d \<Rightarrow>
          (case map_of d (action @ '':'' @ possession) of
             Some a \<Rightarrow> concat_copy h a
           | None \<Rightarrow>
               (case map_of d (action @ '':any'') of
                  Some a \<Rightarrow> concat_copy h a
                | None \<Rightarrow> concat_copy (snd (alloc h (Array []))) (length h)))
      | RExtend a \<Rightarrow> concat_copy (snd (alloc h (Array []))) (length h))"

fun collect_copies ::
  "heap \<Rightarrow> ref_grants \<Rightarrow> string \<Rightarrow> string \<Rightarrow> string \<Rightarrow> string list \<Rightarrow> nat list \<Rightarrow>
     (error + nat list) \<times> heap" where
  "collect_copies h rg resource action possession [] acc = (Inr acc, h)"
| "collect_copies h rg resource action possession (subjectName # rest) acc =
     (case map_of rg subjectName of
        None \<Rightarrow> (Inl TypeError, h)
      | Some subject \<Rightarrow>
          (case map_of subject resource of
             None \<Rightarrow> collect_copies h rg resource action possession rest acc
           | Some v \<Rightarrow>
               (case copy_found h v action possession of
                  (c, h1) \<Rightarrow>
                    collect_copies h1 rg resource action possession rest (acc @ [c]))))"

text \<open>
  \<^verbatim>\<open>Notation.Glob.union\<close> is the parameter \<open>glob_union_ref\<close>: it takes the heap and the addresses of
  two arrays and returns the address of an array, and the heap as it leaves it. It is
  taken to write to no object but the two arrays and those that it allocates, and to
  return one of the two arrays or a new one: that is \<open>union_frame\<close>. \<open>union_all_ref\<close> is the
  loop over \<^verbatim>\<open>attrsList\<close>.
\<close>

definition union_frame :: "(heap \<Rightarrow> nat \<Rightarrow> nat \<Rightarrow> nat \<times> heap) \<Rightarrow> bool" where
  "union_frame glob_union_ref \<longleftrightarrow>
     (\<forall>h a b. length h \<le> length (snd (glob_union_ref h a b))
        \<and> (fst (glob_union_ref h a b) = a \<or> fst (glob_union_ref h a b) = b \<or> length h \<le> fst (glob_union_ref h a b))
        \<and> (\<forall>x < length h. x \<noteq> a \<and> x \<noteq> b \<longrightarrow> snd (glob_union_ref h a b) ! x = h ! x))"

fun union_all_ref ::
  "(heap \<Rightarrow> nat \<Rightarrow> nat \<Rightarrow> nat \<times> heap) \<Rightarrow> heap \<Rightarrow> nat \<Rightarrow> nat list \<Rightarrow> nat \<times> heap" where
  "union_all_ref glob_union_ref h attrs [] = (attrs, h)"
| "union_all_ref glob_union_ref h attrs (x # rest) =
     (case glob_union_ref h attrs x of (attrs', h') \<Rightarrow> union_all_ref glob_union_ref h' attrs' rest)"

definition strs_at :: "heap \<Rightarrow> ref_strs \<Rightarrow> strs" where
  "strs_at h v =
     (case v of RUndefined \<Rightarrow> Undefined | RStr s \<Rightarrow> Str s | RArr a \<Rightarrow> Arr (array_at h a))"

definition getUnionAttrsOfRoles_ref ::
  "(heap \<Rightarrow> nat \<Rightarrow> nat \<Rightarrow> nat \<times> heap) \<Rightarrow> nat \<Rightarrow> heap \<Rightarrow> ref_grants \<Rightarrow> nat \<Rightarrow> (error + nat) \<times> heap" where
  "getUnionAttrsOfRoles_ref glob_union_ref fuel h rg q =
     (case normalizeQueryInfo_ref h q of
        (Inl e, h1) \<Rightarrow> (Inl e, h1)
      | (Inr c, h1) \<Rightarrow>
          (case record_at h1 c of
             None \<Rightarrow> (Inl TypeError, h1)
           | Some query \<Rightarrow>
               (case getFlatRoles fuel (grants_at h1 rg) (strs_at h1 (r_subject query)) of
                  Inl e \<Rightarrow> (Inl e, h1)
                | Inr subjects \<Rightarrow>
                    (case collect_copies h1 rg (js_str (r_resource query)) (js_str (r_action query))
                            (js_str (r_possession query)) subjects [] of
                       (Inl e, h2) \<Rightarrow> (Inl e, h2)
                     | (Inr attrsList, h2) \<Rightarrow>
                         (case alloc h2 (Array []) of
                            (attrs, h3) \<Rightarrow>
                              (case attrsList of
                                 [] \<Rightarrow> (Inr attrs, h3)
                               | a # rest \<Rightarrow>
                                   (case union_all_ref glob_union_ref h3 a rest of
                                      (attrs', h4) \<Rightarrow> (Inr attrs', h4))))))))"

text \<open>
  Modelled from the spec: the constructor of \<^verbatim>\<open>Permission\<close> is not among the sources. It
  resolves the query with \<open>getUnionAttrsOfRoles\<close> and keeps the array that this returns;
  it assigns to nothing but the new \<^verbatim>\<open>Permission\<close>, whose \<^verbatim>\<open>attributes\<close> is the content of
  that array and whose \<^verbatim>\<open>granted\<close> says that it is not empty.
\<close>

definition Permission_new_ref ::
  "(heap \<Rightarrow> nat \<Rightarrow> nat \<Rightarrow> nat \<times> heap) \<Rightarrow> nat \<Rightarrow> heap \<Rightarrow> ref_grants \<Rightarrow> nat \<Rightarrow>
     (error + permission) \<times> heap" where
  "Permission_new_ref glob_union_ref fuel h rg q =
     (case getUnionAttrsOfRoles_ref glob_union_ref fuel h rg q of
        (Inl e, h') \<Rightarrow> (Inl e, h')
      | (Inr a, h') \<Rightarrow>
          (Inr \<lparr>p_attributes = array_at h' a, p_granted = (array_at h' a \<noteq> [])\<rparr>, h'))"

text \<open>
  \<^verbatim>\<open>can\<close> and the constructor of \<^verbatim>\<open>Query\<close>. The argument is omitted, a string or an array
  (by its address), the address of a record with a key or more, or \<^verbatim>\<open>{}\<close>; \<^verbatim>\<open>can\<close> throws
  for an explicit \<^verbatim>\<open>undefined\<close>. The draft is a new record, into which the subject is
  assigned as it was given, or the very record that the caller passed.
  \<open>Query_getPermission_ref\<close> is \<^verbatim>\<open>_getPermission\<close>, which assigns to the draft, and
  \<open>AC_permission_ref\<close> is \<^verbatim>\<open>permission\<close>.
\<close>

datatype can_arg = COmitted | CSubjects ref_strs | CInfo nat | CEmptyInfo

definition empty_qrecord :: qrecord where
  "empty_qrecord =
     \<lparr>r_subject = RUndefined, r_resource = None, r_action = None, r_possession = None\<rparr>"

definition AC_can_ref :: "heap \<Rightarrow> can_arg \<Rightarrow> (error + nat) \<times> heap" where
  "AC_can_ref h subject =
     (case subject of
        COmitted \<Rightarrow> (case alloc h (Record empty_qrecord) of (d, h') \<Rightarrow> (Inr d, h'))
      | CSubjects RUndefined \<Rightarrow> (Inl InvalidSubjects, h)
      | CSubjects v \<Rightarrow>
          (case alloc h (Record empty_qrecord) of
             (d, h') \<Rightarrow> (Inr d, assign h' d (\<lambda>r. r\<lparr>r_subject := v\<rparr>)))
      | CInfo d \<Rightarrow> (Inr d, h)
      | CEmptyInfo \<Rightarrow> (Inl InvalidInfo, h))"

definition Query_getPermission_ref ::
  "(heap \<Rightarrow> nat \<Rightarrow> nat \<Rightarrow> nat \<times> heap) \<Rightarrow> nat \<Rightarrow> heap \<Rightarrow> ref_grants \<Rightarrow> nat \<Rightarrow> string \<Rightarrow> string \<Rightarrow>
     string option \<Rightarrow> (error + permission) \<times> heap" where
  "Query_getPermission_ref glob_union_ref fuel h rg d action possession resource =
     (let h1 = assign h d (\<lambda>r. r\<lparr>r_action := Some action\<rparr>);
          h2 = assign h1 d (\<lambda>r. r\<lparr>r_possession := Some possession\<rparr>);
          h3 = (if truthy resource then assign h2 d (\<lambda>r. r\<lparr>r_resource := resource\<rparr>) else h2)
      in Permission_new_ref glob_union_ref fuel h3 rg d)"

definition AC_permission_ref ::
  "(heap \<Rightarrow> nat \<Rightarrow> nat \<Rightarrow> nat \<times> heap) \<Rightarrow> nat \<Rightarrow> heap \<Rightarrow> ref_grants \<Rightarrow> nat \<Rightarrow>
     (error + permission) \<times> heap" where
  "AC_permission_ref glob_union_ref fuel h rg queryInfo = Permission_new_ref glob_union_ref fuel h rg queryInfo"

text \<open>
  The content of a query record, as \<open>normalizeQueryInfo\<close> above takes it, and a union with
  addresses that computes, on two different arrays, what a union on contents does.
  \<open>concat_union\<close> is one that allocates its result.
\<close>

definition query_at :: "heap \<Rightarrow> qrecord \<Rightarrow> query_info" where
  "query_at h r =
     \<lparr>q_subject = strs_at h (r_subject r), q_resource = r_resource r, q_action = r_action r,
      q_possession = r_possession r\<rparr>"

definition union_reads ::
  "(heap \<Rightarrow> nat \<Rightarrow> nat \<Rightarrow> nat \<times> heap) \<Rightarrow> (attrs \<Rightarrow> attrs \<Rightarrow> attrs) \<Rightarrow> bool" where
  "union_reads glob_union_ref glob_union \<longleftrightarrow>
     (\<forall>h a b. a \<noteq> b \<longrightarrow>
        array_at (snd (glob_union_ref h a b)) (fst (glob_union_ref h a b))
          = glob_union (array_at h a) (array_at h b))"

definition concat_union :: "heap \<Rightarrow> nat \<Rightarrow> nat \<Rightarrow> nat \<times> heap" where
  "concat_union h a b = alloc h (Array (array_at h a @ array_at h b))"

text \<open>The objects below the address \<open>n\<close> are in \<open>h'\<close> what they are in \<open>h\<close>, and nothing was
  taken from the heap.\<close>

definition frame :: "nat \<Rightarrow> heap \<Rightarrow> heap \<Rightarrow> bool" where
  "frame n h h' \<longleftrightarrow> n \<le> length h \<and> length h \<le> length h' \<and> (\<forall>x < n. h' ! x = h ! x)"

text \<open>
  A store of two roles that share the array at the address 0, a query record for
  \<^verbatim>\<open>read:any\<close> of \<^verbatim>\<open>doc\<close> by both roles at the address 2, and a union that writes to the
  first of its arrays: it appends the elements of the second and returns the first.
\<close>

definition shared_heap :: heap where
  "shared_heap =
     [Array [''title''], Array [''admin'', ''user''],
      Record \<lparr>r_subject = RArr 1, r_resource = Some ''doc'', r_action = Some ''read'',
              r_possession = None\<rparr>]"

definition shared_grants :: ref_grants where
  "shared_grants =
     [(''admin'', [(''doc'', RResource [(''read:any'', 0)])]),
      (''user'', [(''doc'', RResource [(''read:any'', 0)])])]"

definition append_union :: "heap \<Rightarrow> nat \<Rightarrow> nat \<Rightarrow> nat \<times> heap" where
  "append_union h a b =
     (case js_nth h a of
        Some (Array xs) \<Rightarrow> (a, h[a := Array (xs @ array_at h b)])
      | _ \<Rightarrow> (a, h))"

section \<open>Properties\<close>

subsection \<open>Grants objects\<close>

lemma object_of_current: "object_of a (ac_id a) = (ac_grants a, ac_frozen a)"
  by (simp add: object_of_def)

lemma write_object_current: "write_object a (ac_id a) g = a\<lparr>ac_grants := g\<rparr>"
  by (simp add: write_object_def)

lemma write_object_same: "write_object a (ac_id a) (ac_grants a) = a"
  by (simp add: write_object_def)

lemma write_object_fields:
  "ac_grants (write_object a i g) = (if i = ac_id a then g else ac_grants a)"
  "ac_frozen (write_object a i g) = ac_frozen a"
  "ac_isLocked (write_object a i g) = ac_isLocked a"
  "ac_id (write_object a i g) = ac_id a"
  by (simp_all add: write_object_def)

lemma write_object_old:
  "i \<noteq> ac_id a \<Longrightarrow>
   ac_grants (write_object a i g) = ac_grants a \<and> ac_frozen (write_object a i g) = ac_frozen a
   \<and> ac_isLocked (write_object a i g) = ac_isLocked a \<and> ac_id (write_object a i g) = ac_id a"
  by (simp add: write_object_def)

subsection \<open>Granting, then denying\<close>

text \<open>
  C1. On the instance that \<^verbatim>\<open>new AccessControl()\<close> creates, whose grants are empty (and
  are empty again after \<^verbatim>\<open>setGrants({})\<close>),
  \<^verbatim>\<open>grant('admin').createAny('profile')\<close> succeeds and leaves the entry
  \<^verbatim>\<open>admin.profile['create:any'] = ['*']\<close>; \<^verbatim>\<open>can('admin').createAny('profile')\<close> then has the
  attributes \<^verbatim>\<open>['*']\<close> and is granted. A following \<^verbatim>\<open>deny('admin').createAny('profile')\<close>
  succeeds and overwrites the entry with \<^verbatim>\<open>[]\<close>; the same query then has no attributes
  and is not granted. This holds for every union operation and with one stack frame or
  more.
\<close>

theorem grant_then_deny_scenario:
  "AC_new fuel (GObject []) = Inr AC_init
   \<and> fst (AC_setGrants fuel AC_init (GObject [])) = Inr ()
   \<and> ac_grants (snd (AC_setGrants fuel AC_init (GObject []))) = []
   \<and> \<not> isl (fst (grant_admin AC_init))
   \<and> ac_grants (snd (grant_admin AC_init)) = admin_granted
   \<and> can_admin glob_union (Suc fuel) (snd (grant_admin AC_init))
       = Inr \<lparr>p_attributes = [''*''], p_granted = True\<rparr>
   \<and> \<not> isl (fst (deny_admin (snd (grant_admin AC_init))))
   \<and> ac_grants (snd (deny_admin (snd (grant_admin AC_init)))) = admin_denied
   \<and> can_admin glob_union (Suc fuel) (snd (deny_admin (snd (grant_admin AC_init))))
       = Inr \<lparr>p_attributes = [], p_granted = False\<rparr>"
  by code_simp

theorem grant_then_deny_scenario_witness:
  "can_admin (\<lambda>a b. a @ b) (Suc 0) (snd (grant_admin AC_init))
     = Inr \<lparr>p_attributes = [''*''], p_granted = True\<rparr>
   \<and> can_admin (\<lambda>a b. a @ b) (Suc 0) (snd (deny_admin (snd (grant_admin AC_init))))
     = Inr \<lparr>p_attributes = [], p_granted = False\<rparr>"
  using grant_then_deny_scenario [of 0 "\<lambda>a b. a @ b"] by simp

subsection \<open>The fallback from own to any\<close>

lemma normalize_read_own:
  "normalizeActionPossession (Some ''read'') (Some ''own'') = Inr (''read'', ''own'')"
  by code_simp

lemma normalize_read_any:
  "normalizeActionPossession (Some ''read'') (Some ''any'') = Inr (''read'', ''any'')"
  by code_simp

lemma attrs_of_role_own_any:
  "(case map_of r resource of
      Some (Resource d) \<Rightarrow> map_of d (action @ '':own'') = None
    | _ \<Rightarrow> True)
   \<Longrightarrow> attrs_of_role r resource action ''own'' = attrs_of_role r resource action ''any''"
  by (auto simp: attrs_of_role_def split: option.splits role_value.splits)

lemma collect_attrs_own_any:
  "no_own_key g resource action roles \<Longrightarrow>
   collect_attrs g resource action ''own'' roles = collect_attrs g resource action ''any'' roles"
proof (induction roles)
  case Nil
  then show ?case by simp
next
  case (Cons s roles)
  then show ?case
    by (auto simp: no_own_key_def attrs_of_role_own_any split: option.splits sum.splits)
qed

text \<open>
  C2, as stated, fails: in the store \<open>denied_any\<close> the role \<^verbatim>\<open>user\<close> has an entry for
  \<^verbatim>\<open>doc\<close> with the key \<^verbatim>\<open>read:any\<close> and no key \<^verbatim>\<open>read:own\<close>, yet \<^verbatim>\<open>can('user').readOwn('doc')\<close>
  is not granted: the list under \<^verbatim>\<open>read:any\<close> is empty.
\<close>

theorem own_fallback_counterexample:
  "map_of denied_any ''user'' = Some [(''doc'', Resource [(''read:any'', [])])]
   \<and> can_readOwn (\<lambda>a b. a @ b) 1 \<lparr>ac_grants = denied_any, ac_frozen = False, ac_isLocked = False, ac_id = 0, ac_old = []\<rparr>
        (Str ''user'') ''doc''
      = Inr \<lparr>p_attributes = [], p_granted = False\<rparr>"
  by code_simp

text \<open>
  C2, amended. Let \<open>roles\<close> be the effective roles of the queried subjects (the subjects
  and every role they inherit, as \<open>getFlatRoles\<close> lists them). If none of them has the
  key \<^verbatim>\<open>read:own\<close> under the (trimmed) resource, then \<^verbatim>\<open>can(subjects).readOwn(R)\<close> has the
  outcome of \<^verbatim>\<open>can(subjects).readAny(R)\<close>: the same attributes and the same granted flag.
  The permission is granted exactly when its attribute list is not empty.
\<close>

theorem own_falls_back_to_any:
  assumes "getFlatRoles fuel (ac_grants a) (Arr (toStringArray subjects)) = Inr roles"
    and "no_own_key (ac_grants a) (js_trim R) ''read'' roles"
  shows "can_readOwn glob_union fuel a subjects R = can_readAny glob_union fuel a subjects R
         \<and> (\<forall>p. can_readOwn glob_union fuel a subjects R = Inr p
                \<longrightarrow> p_granted p = (p_attributes p \<noteq> []))"
  using assms
  by (auto simp: can_readOwn_def can_readAny_def ask_def AC_can_def Query_new_def
      Query_readOwn_def Query_readAny_def Query_getPermission_def Permission_new_def
      object_of_def
      getUnionAttrsOfRoles_def normalizeQueryInfo_def normalize_read_own normalize_read_any
      truthy_def empty_query_def Let_def js_str_def collect_attrs_own_any toStringArray_def
      split: strs.splits sum.splits option.splits if_splits)

theorem own_falls_back_to_any_witness:
  "getFlatRoles 2 user_guest (Arr (toStringArray (Str ''user''))) = Inr [''user'', ''guest'']
   \<and> no_own_key user_guest (js_trim ''doc'') ''read'' [''user'', ''guest'']
   \<and> can_readOwn (\<lambda>a b. a @ b) 2 \<lparr>ac_grants = user_guest, ac_frozen = False, ac_isLocked = False, ac_id = 0, ac_old = []\<rparr>
        (Str ''user'') ''doc''
      = can_readAny (\<lambda>a b. a @ b) 2 \<lparr>ac_grants = user_guest, ac_frozen = False, ac_isLocked = False, ac_id = 0, ac_old = []\<rparr>
        (Str ''user'') ''doc''
   \<and> can_readAny (\<lambda>a b. a @ b) 2 \<lparr>ac_grants = user_guest, ac_frozen = False, ac_isLocked = False, ac_id = 0, ac_old = []\<rparr>
        (Str ''user'') ''doc''
      = Inr \<lparr>p_attributes = [''*'', ''!secret'', ''title''], p_granted = True\<rparr>"
proof -
  have h1: "getFlatRoles 2 (ac_grants \<lparr>ac_grants = user_guest, ac_frozen = False, ac_isLocked = False, ac_id = 0, ac_old = []\<rparr>)
              (Arr (toStringArray (Str ''user''))) = Inr [''user'', ''guest'']"
    by code_simp
  have h2: "no_own_key (ac_grants \<lparr>ac_grants = user_guest, ac_frozen = False, ac_isLocked = False, ac_id = 0, ac_old = []\<rparr>)
              (js_trim ''doc'') ''read'' [''user'', ''guest'']"
    by code_simp
  have h3: "can_readAny (\<lambda>a b. a @ b) 2
              \<lparr>ac_grants = user_guest, ac_frozen = False, ac_isLocked = False, ac_id = 0, ac_old = []\<rparr> (Str ''user'') ''doc''
            = Inr \<lparr>p_attributes = [''*'', ''!secret'', ''title''], p_granted = True\<rparr>"
    by code_simp
  from own_falls_back_to_any [OF h1 h2, of "\<lambda>a b. a @ b"] h1 h2 h3 show ?thesis
    by simp
qed

subsection \<open>Locking\<close>

lemma lockAC_locked:
  "lockAC a = (Inr (), a') \<Longrightarrow>
   isLocked a' \<and> ac_frozen a' \<and> ac_grants a' = ac_grants a \<and> ac_grants a \<noteq> []"
  by (auto simp: lockAC_def isLocked_def deepFreeze_def split: if_splits)

lemma lockAC_nonempty:
  "ac_grants a \<noteq> [] \<Longrightarrow> lockAC a = (Inr (), a\<lparr>ac_frozen := True, ac_isLocked := True\<rparr>)"
  by (auto simp: lockAC_def isLocked_def deepFreeze_def)

lemma lockAC_again: "isLocked a \<Longrightarrow> ac_grants a \<noteq> [] \<Longrightarrow> lockAC a = (Inr (), a)"
  by (auto simp: lockAC_def isLocked_def deepFreeze_def)

lemma validName_not_ErrLock: "validName n = Inl e \<Longrightarrow> e \<noteq> ErrLock"
  by (auto simp: validName_def split: if_splits)

lemma commit_resources_frozen:
  "resources \<noteq> [] \<Longrightarrow>
   \<exists>e. commit_resources True g subject ap attributes resources = (Inl e, g) \<and> e \<noteq> ErrLock"
  by (cases resources) (auto simp: validName_def split: sum.splits option.splits)

lemma commit_subjects_frozen:
  assumes "subjects \<noteq> []" and "resources \<noteq> []"
  shows "\<exists>e. commit_subjects True g ap attributes resources subjects = (Inl e, g) \<and> e \<noteq> ErrLock"
proof (cases subjects)
  case Nil
  with assms show ?thesis by simp
next
  case (Cons s rest)
  obtain e where e: "commit_resources True g s ap attributes resources = (Inl e, g)" "e \<noteq> ErrLock"
    using commit_resources_frozen [OF assms(2)] by blast
  show ?thesis
  proof (cases "validName s")
    case (Inl e')
    then show ?thesis using Cons validName_not_ErrLock by auto
  next
    case (Inr u)
    then show ?thesis using Cons e by (cases "map_of g s = None") auto
  qed
qed

lemma normalizeAccessInfo_nonempty:
  "normalizeAccessInfo access all = Inr a \<Longrightarrow>
   toStringArray (a_subject a) \<noteq> [] \<and> toStringArray (a_resource a) \<noteq> []"
  by (auto simp: normalizeAccessInfo_def Let_def toStringArray_def
      split: if_splits sum.splits prod.splits)

lemma normalizeAccessInfo_not_ErrLock: "normalizeAccessInfo access all = Inl e \<Longrightarrow> e \<noteq> ErrLock"
  by (auto simp: normalizeAccessInfo_def normalizeActionPossession_def Let_def
      split: if_splits sum.splits prod.splits option.splits)

lemma commitToGrants_frozen:
  "\<exists>e. commitToGrants True g access normalizeAll = (Inl e, g) \<and> e \<noteq> ErrLock"
  using commit_subjects_frozen normalizeAccessInfo_nonempty normalizeAccessInfo_not_ErrLock
  by (auto simp: commitToGrants_def split: sum.splits)

lemma preCreateRoles_each_frozen: "snd (preCreateRoles_each True g ss) = g"
  by (induction ss) (auto split: sum.splits)

lemma preCreateRoles_frozen: "snd (preCreateRoles True g v) = g"
  by (auto simp: preCreateRoles_def preCreateRoles_each_frozen split: strs.splits)

lemma extendRole_each_frozen: "snd (extendRole_each fuel True g exts replace ss) = g"
  by (cases ss) (auto split: sum.splits option.splits)

lemma extendRole_frozen: "snd (extendRole fuel True g s e replace) = g"
  by (auto simp: extendRole_def Let_def extendRole_each_frozen)

lemma prepareAndCommit_frozen:
  assumes "ac_frozen a" and "acc_ref b = ac_id a"
  shows "\<exists>e. Access_prepareAndCommit a b action possession resource attributes = (Inl e, a)
             \<and> e \<noteq> ErrLock"
proof -
  obtain e where e: "commitToGrants True (ac_grants a)
      (prepared (acc_info b) action possession resource attributes) False = (Inl e, ac_grants a)"
      "e \<noteq> ErrLock"
    using commitToGrants_frozen by blast
  have "Access_prepareAndCommit a b action possession resource attributes = (Inl e, a)"
    using assms e(1)
    by (simp add: Access_prepareAndCommit_def Let_def object_of_current write_object_same)
  with e(2) show ?thesis by blast
qed

lemma Access_subject_frozen:
  assumes "ac_frozen a" and "acc_ref b = ac_id a"
  shows "snd (Access_subject a b v) = a"
  using assms preCreateRoles_frozen [of "ac_grants a" v]
  by (cases "preCreateRoles True (ac_grants a) v")
     (auto simp: Access_subject_def object_of_current write_object_same split: sum.splits)

lemma Access_extend_frozen:
  assumes "ac_frozen a" and "acc_ref b = ac_id a"
  shows "snd (Access_extend fuel a b v) = a"
  using assms extendRole_frozen [of fuel "ac_grants a" "a_subject (acc_info b)" v False]
  by (cases "extendRole fuel True (ac_grants a) (a_subject (acc_info b)) v False")
     (auto simp: Access_extend_def object_of_current write_object_same split: sum.splits)

lemma Access_new_frozen:
  assumes "ac_frozen a"
  shows "snd (Access_new a arg denied) = a"
proof (cases arg)
  case Omitted
  then show ?thesis by (simp add: Access_new_def)
next
  case (Subjects v)
  have "snd (Access_subject a \<lparr>acc_info = empty_access\<lparr>a_denied := denied\<rparr>, acc_ref = ac_id a\<rparr> v) = a"
    using assms by (simp add: Access_subject_frozen)
  with Subjects show ?thesis by (cases v) (simp_all add: Access_new_def)
next
  case (Info i)
  obtain e where "commitToGrants True (ac_grants a) (resetAttributes (i\<lparr>a_denied := denied\<rparr>)) True
      = (Inl e, ac_grants a)"
    using commitToGrants_frozen by blast
  with Info assms show ?thesis by (simp add: Access_new_def Let_def)
next
  case EmptyInfo
  then show ?thesis by (simp add: Access_new_def)
qed

lemma builder_keeps_instance:
  "ac_frozen a \<Longrightarrow>
   ac_grants (snd (Access_prepareAndCommit a b action possession resource attributes)) = ac_grants a
   \<and> ac_grants (snd (Access_subject a b v)) = ac_grants a
   \<and> ac_grants (snd (Access_extend fuel a b v)) = ac_grants a"
proof (cases "acc_ref b = ac_id a")
  case True
  assume "ac_frozen a"
  with True prepareAndCommit_frozen [of a b action possession resource attributes]
    Access_subject_frozen [of a b v] Access_extend_frozen [of a b fuel v]
  show ?thesis by auto
next
  case False
  then show ?thesis
    by (auto simp: Access_prepareAndCommit_def Access_subject_def Access_extend_def Let_def
        write_object_fields split: prod.splits sum.splits)
qed

lemma builder_keeps_flags:
  "isLocked (snd (Access_prepareAndCommit a b action possession resource attributes)) = isLocked a
   \<and> isLocked (snd (Access_subject a b v)) = isLocked a
   \<and> isLocked (snd (Access_extend fuel a b v)) = isLocked a"
  by (auto simp: Access_prepareAndCommit_def Access_subject_def Access_extend_def Let_def
      isLocked_def write_object_fields split: prod.splits sum.splits)

text \<open>
  C3, as stated, fails for the commits through a builder. The builder that
  \<^verbatim>\<open>grant('admin').createAny('profile')\<close> returned is used again after \<^verbatim>\<open>lock()\<close>: its
  \<^verbatim>\<open>createAny('profile')\<close> fails with the \<open>TypeError\<close> of the write to the frozen object, not
  with the locked-state error. And a builder that was obtained before a \<^verbatim>\<open>reset()\<close> holds
  the object that the instance held then: after
  \<^verbatim>\<open>reset()\<close>, \<^verbatim>\<open>grant('user').readAny('doc')\<close> and \<^verbatim>\<open>lock()\<close> its \<^verbatim>\<open>createAny('video')\<close> does not
  fail at all. It writes to the old object, which is not frozen; the grants of the
  instance stay as they are.
\<close>

theorem builder_commit_after_lock_counterexample:
  "grant_admin AC_init = (Inr admin_builder, unlocked admin_granted)
   \<and> AC_lock (unlocked admin_granted) = (Inr (), locked_admin)
   \<and> Access_createAny locked_admin admin_builder (Str ''profile'') Undefined
       = (Inl TypeError, locked_admin)
   \<and> Inl TypeError \<noteq> (Inl ErrLock :: error + access)
   \<and> snd (AC_reset (unlocked admin_granted)) = after_reset
   \<and> snd (grant_user_doc after_reset) = user_after_reset
   \<and> AC_lock user_after_reset = (Inr (), locked_after_reset)
   \<and> isLocked locked_after_reset
   \<and> \<not> isl (fst (Access_createAny locked_after_reset admin_builder (Str ''video'') Undefined))
   \<and> ac_grants (snd (Access_createAny locked_after_reset admin_builder (Str ''video'') Undefined))
       = ac_grants locked_after_reset
   \<and> ac_old (snd (Access_createAny locked_after_reset admin_builder (Str ''video'') Undefined))
       = [(0, [(''admin'', [(''profile'', Resource [(''create:any'', [''*''])]),
                            (''video'', Resource [(''create:any'', [''*''])])])], False)]"
  by code_simp

text \<open>
  C3, amended. Once \<^verbatim>\<open>lock()\<close> has succeeded, the grants that the instance holds never
  change again. \<^verbatim>\<open>setGrants\<close>, \<^verbatim>\<open>reset\<close>, \<^verbatim>\<open>grant\<close>, \<^verbatim>\<open>deny\<close>, \<^verbatim>\<open>extendRole\<close>, \<^verbatim>\<open>removeRoles\<close> and
  \<^verbatim>\<open>removeResources\<close> fail with the locked-state error and leave the instance as it is. A
  commit through an \<^verbatim>\<open>Access\<close> builder that holds the grants object of the instance fails
  as well and leaves the instance as it is, with an error that is not the locked-state
  error (the engine's \<open>TypeError\<close> for the frozen object, or the error of the builder's own
  arguments); \<^verbatim>\<open>subject\<close> and \<^verbatim>\<open>extend\<close> of such a builder, and \<^verbatim>\<open>grant\<close> and \<^verbatim>\<open>deny\<close> of any
  builder, leave the instance as it is whether they throw or not. A builder that holds
  another object, one that the instance held before a \<^verbatim>\<open>setGrants\<close> or \<^verbatim>\<open>reset\<close>, writes to
  that object: whatever it does, the grants of the instance and its locked state stay as
  they are. A further \<^verbatim>\<open>lock()\<close> succeeds and changes nothing: there is no way back.
\<close>

theorem locked_instance_never_changes:
  assumes "AC_lock a = (Inr (), a')"
  shows "AC_setGrants fuel a' inp = (Inl ErrLock, a')
       \<and> AC_reset a' = (Inl ErrLock, a')
       \<and> AC_grant a' arg = (Inl ErrLock, a')
       \<and> AC_deny a' arg = (Inl ErrLock, a')
       \<and> AC_extendRole fuel a' subjects extenderRoles replace = (Inl ErrLock, a')
       \<and> AC_removeRoles a' subjects = (Inl ErrLock, a')
       \<and> AC_removeResources a' resources subjects = (Inl ErrLock, a')
       \<and> (acc_ref b = ac_id a' \<longrightarrow>
            (\<exists>e. Access_prepareAndCommit a' b action possession resource attributes = (Inl e, a')
                  \<and> e \<noteq> ErrLock)
            \<and> snd (Access_subject a' b subjects) = a'
            \<and> snd (Access_extend fuel a' b subjects) = a')
       \<and> snd (Access_grant a' arg) = a'
       \<and> snd (Access_deny a' arg) = a'
       \<and> ac_grants (snd (Access_prepareAndCommit a' b action possession resource attributes))
            = ac_grants a'
       \<and> ac_grants (snd (Access_subject a' b subjects)) = ac_grants a'
       \<and> ac_grants (snd (Access_extend fuel a' b subjects)) = ac_grants a'
       \<and> isLocked (snd (Access_prepareAndCommit a' b action possession resource attributes))
       \<and> isLocked (snd (Access_subject a' b subjects))
       \<and> isLocked (snd (Access_extend fuel a' b subjects))
       \<and> AC_lock a' = (Inr (), a')"
proof -
  have l: "isLocked a'" "ac_frozen a'" "ac_grants a' \<noteq> []"
    using assms lockAC_locked [of a a'] by (auto simp: AC_lock_def)
  have 1: "AC_setGrants fuel a' inp = (Inl ErrLock, a')"
    using l by (simp add: AC_setGrants_def)
  have 2: "AC_reset a' = (Inl ErrLock, a')"
    using l by (simp add: AC_reset_def)
  have 3: "AC_grant a' arg = (Inl ErrLock, a')"
    using l by (simp add: AC_grant_def)
  have 4: "AC_deny a' arg = (Inl ErrLock, a')"
    using l by (simp add: AC_deny_def)
  have 5: "AC_extendRole fuel a' subjects extenderRoles replace = (Inl ErrLock, a')"
    using l by (simp add: AC_extendRole_def)
  have 6: "AC_removeRoles a' subjects = (Inl ErrLock, a')"
    using l by (simp add: AC_removeRoles_def)
  have 7: "AC_removeResources a' resources subjects = (Inl ErrLock, a')"
    using l by (simp add: AC_removeResources_def)
  have 8: "acc_ref b = ac_id a' \<longrightarrow>
            (\<exists>e. Access_prepareAndCommit a' b action possession resource attributes = (Inl e, a')
                  \<and> e \<noteq> ErrLock)
            \<and> snd (Access_subject a' b subjects) = a'
            \<and> snd (Access_extend fuel a' b subjects) = a'"
    using l(2) prepareAndCommit_frozen Access_subject_frozen Access_extend_frozen by blast
  have n: "snd (Access_new a' arg False) = a'" "snd (Access_new a' arg True) = a'"
    using l(2) by (simp_all add: Access_new_frozen)
  have 9: "snd (Access_grant a' arg) = a'"
    using n(1) by (cases "Access_new a' arg False") (auto simp: Access_grant_def split: sum.splits)
  have 10: "snd (Access_deny a' arg) = a'"
    using n(2) by (cases "Access_new a' arg True") (auto simp: Access_deny_def split: sum.splits)
  note 11 = builder_keeps_instance [OF l(2), of b action possession resource attributes subjects fuel]
  note 12 = builder_keeps_flags [of a' b action possession resource attributes subjects fuel]
  have 13: "AC_lock a' = (Inr (), a')"
    using l lockAC_again by (simp add: AC_lock_def)
  from 1 2 3 4 5 6 7 8 9 10 11 12 13 l(1) show ?thesis by simp
qed

theorem locked_instance_never_changes_witness:
  "AC_lock (unlocked admin_granted) = (Inr (), locked_admin)
   \<and> acc_ref admin_builder = ac_id locked_admin
   \<and> AC_reset locked_admin = (Inl ErrLock, locked_admin)
   \<and> AC_grant locked_admin (Subjects (Str ''user'')) = (Inl ErrLock, locked_admin)
   \<and> AC_removeRoles locked_admin (Arr [''admin'']) = (Inl ErrLock, locked_admin)
   \<and> snd (Access_subject locked_admin admin_builder (Arr [''admin''])) = locked_admin
   \<and> AC_lock locked_admin = (Inr (), locked_admin)"
proof -
  have h: "AC_lock (unlocked admin_granted) = (Inr (), locked_admin)"
    by code_simp
  have r: "acc_ref admin_builder = ac_id locked_admin"
    by code_simp
  from locked_instance_never_changes
    [OF h, of _ _ "Subjects (Str ''user'')" "Arr [''admin'']" _ _ _ admin_builder] h r
  show ?thesis by blast
qed

text \<open>
  C9. On an instance whose grants are not empty \<^verbatim>\<open>lock()\<close> succeeds, leaves the grants as
  they are and makes \<^verbatim>\<open>isLocked\<close> true; a second \<^verbatim>\<open>lock()\<close> succeeds too and returns the
  very same instance state, so that whatever is called afterwards behaves after two
  calls as it does after one.
\<close>

theorem lock_idempotent:
  assumes "ac_grants a \<noteq> []"
  shows "fst (AC_lock a) = Inr ()
       \<and> isLocked (snd (AC_lock a))
       \<and> ac_grants (snd (AC_lock a)) = ac_grants a
       \<and> AC_lock (snd (AC_lock a)) = (Inr (), snd (AC_lock a))"
  using assms by (auto simp: AC_lock_def lockAC_nonempty lockAC_again isLocked_def)

theorem lock_idempotent_witness:
  "admin_granted \<noteq> []
   \<and> AC_lock \<lparr>ac_grants = admin_granted, ac_frozen = False, ac_isLocked = False, ac_id = 0,
              ac_old = []\<rparr>
       = (Inr (), locked_admin)
   \<and> AC_lock locked_admin = (Inr (), locked_admin)
   \<and> isLocked locked_admin"
proof -
  have h: "ac_grants \<lparr>ac_grants = admin_granted, ac_frozen = False, ac_isLocked = False,
                      ac_id = 0, ac_old = []\<rparr> \<noteq> []"
    by code_simp
  have e: "AC_lock \<lparr>ac_grants = admin_granted, ac_frozen = False, ac_isLocked = False, ac_id = 0,
                    ac_old = []\<rparr>
             = (Inr (), locked_admin)"
    by code_simp
  from lock_idempotent [OF h] h e show ?thesis by simp
qed

subsection \<open>Removing a role that others extend\<close>





subsection \<open>Rejecting a cycle\<close>

lemma set_pushUniq: "set (pushUniq arr x) = insert x (set arr)"
  by (auto simp: pushUniq_def)

lemma set_uniqConcat: "set (uniqConcat a b) = set a \<union> set b"
  unfolding uniqConcat_def by (induction b arbitrary: a) (auto simp: set_pushUniq)

lemma hierarchy_contains:
  "(getRoleHierarchyOf n g s root = Inr h \<longrightarrow> s \<in> set h
      \<and> (\<forall>r exts. map_of g s = Some r \<and> extend_of r = Some exts \<longrightarrow> set exts \<subseteq> set h))"
  "(hierarchy_each n g s root exts arr = Inr h \<longrightarrow> set arr \<subseteq> set h \<and> set exts \<subseteq> set h)"
proof (induction n g s root and n g s root exts arr arbitrary: h and h rule: getRoleHierarchyOf_hierarchy_each.induct)
  case (1 g subjectName rootRole)
  then show ?case by simp
next
  case (2 n g subjectName rootRole)
  then show ?case by (auto split: option.splits if_splits)
next
  case (3 n g subjectName rootRole arr)
  then show ?case by simp
next
  case (4 n g subjectName rootRole exRoleName rest arr)
  show ?case
  proof
    assume a: "hierarchy_each n g subjectName rootRole (exRoleName # rest) arr = Inr h"
    then obtain ext where
      e: "getRoleHierarchyOf n g exRoleName (if truthy rootRole then rootRole else Some subjectName) = Inr ext"
      and r: "hierarchy_each n g subjectName rootRole rest (uniqConcat arr ext) = Inr h"
      by (auto split: if_splits sum.splits)
    from a have c: "map_of g exRoleName \<noteq> None" "exRoleName \<noteq> subjectName"
      "\<not> (truthy rootRole \<and> rootRole = Some exRoleName)"
      by (auto split: if_splits)
    from 4(1)[OF c] e have "exRoleName \<in> set ext" by simp
    moreover from 4(2)[OF c e] r have "set (uniqConcat arr ext) \<subseteq> set h \<and> set rest \<subseteq> set h" by simp
    ultimately show "set arr \<subseteq> set h \<and> set (exRoleName # rest) \<subseteq> set h"
      by (auto simp: set_uniqConcat)
  qed
qed


lemma hierarchy_contains_extender:
  assumes "getRoleHierarchyOf n g s root = Inr h" and "map_of g s = Some r"
    and "extend_of r = Some exts" and "b \<in> set exts"
  shows "b \<in> set h"
  using hierarchy_contains(1)[of n g s root h] assms by blast

lemma extend_of_update: "extend_of (AList.update ''_extend_'' (Extend ext) r) = Some ext"
  by (simp add: extend_of_def update_conv')

lemma new_extend_contains: "new_extend r exts replace = Inr ext \<Longrightarrow> set exts \<subseteq> set ext"
  by (auto simp: new_extend_def set_uniqConcat split: if_splits option.splits role_value.splits)

lemma validName_nonempty: "validName n = Inr () \<Longrightarrow> n \<noteq> []"
  by (auto simp: validName_def js_trim_def split: if_splits)

lemma extendRole_single_success:
  assumes "extendRole fuel fr g sA eB replace = (Inr (), g1)"
    and "toStringArray sA = [A]" and "toStringArray eB = [B]"
  shows "\<exists>r ext. map_of g A = Some r \<and> map_of g B \<noteq> None \<and> A \<noteq> B \<and> validName A = Inr () \<and> \<not> fr
       \<and> new_extend r [B] replace = Inr ext
       \<and> g1 = AList.update A (AList.update ''_extend_'' (Extend ext) r) g"
proof -
  from assms(3) have ne: "\<not> isEmptyArray eB"
    by (auto simp: isEmptyArray_def toStringArray_def)
  from assms ne have nb: "getNonExistentRoles g [B] = []"
    and e: "extendRole_each fuel fr g [B] replace [A] = (Inr (), g1)"
    by (auto simp: extendRole_def Let_def split: if_splits)
  from nb have B: "map_of g B \<noteq> None"
    by (auto simp: getNonExistentRoles_def split: if_splits)
  from e show ?thesis using B
    by (auto split: option.splits if_splits sum.splits)
qed

lemma extendRole_keeps_flags:
  "AC_extendRole fuel a s e replace = (res, a1) \<Longrightarrow>
   isLocked a1 = isLocked a \<and> ac_frozen a1 = ac_frozen a \<and> a1 = a\<lparr>ac_grants := ac_grants a1\<rparr>"
  by (auto simp: AC_extendRole_def isLocked_def split: if_splits prod.splits)

lemma second_extend:
  assumes A1: "map_of g A = Some rA" and eA: "extend_of rA = Some ext" and Bext: "B \<in> set ext"
    and B1: "map_of g B \<noteq> None" and AB: "A \<noteq> B" and nA: "A \<noteq> []"
    and sB: "toStringArray sB = [B]" and eA': "toStringArray eA = [A]"
  shows "extendRole fuel fr g sB eA replace =
           (case getRoleHierarchyOf fuel g A None of
              Inl e \<Rightarrow> (Inl e, g)
            | Inr h \<Rightarrow> (Inl (CrossInheritance A B), g))"
proof -
  have neA: "\<not> isEmptyArray eA" using eA' by (auto simp: isEmptyArray_def toStringArray_def)
  have non: "getNonExistentRoles g [A] = []" using A1 by (simp add: getNonExistentRoles_def)
  obtain rB where rB: "map_of g B = Some rB" using B1 by blast
  show ?thesis
  proof (cases "getRoleHierarchyOf fuel g A None")
    case (Inl e)
    then have "getCrossExtendingRole fuel g B (Arr [A]) = Inl e"
      using AB by (simp add: getCrossExtendingRole_def toStringArray_def truthy_def)
    then show ?thesis using Inl sB eA' neA non rB AB
      by (simp add: extendRole_def Let_def)
  next
    case (Inr h)
    from hierarchy_contains_extender [OF Inr A1 eA Bext] have "B \<in> set h" .
    then have "getCrossExtendingRole fuel g B (Arr [A]) = Inr (Some A)"
      using Inr AB by (simp add: getCrossExtendingRole_def toStringArray_def truthy_def)
    then show ?thesis using Inr sB eA' neA non rB AB nA
      by (simp add: extendRole_def Let_def truthy_def js_str_def)
  qed
qed

text \<open>
  C4, as stated, fails in a store that holds a dangling inheritance list, which the
  public operations can produce. The store is loaded with \<^verbatim>\<open>a\<close> extending \<^verbatim>\<open>ghost\<close>;
  \<^verbatim>\<open>removeRoles(['ghost', 'nope'])\<close> deletes \<^verbatim>\<open>ghost\<close> and throws for \<^verbatim>\<open>nope\<close> before any list
  is pruned. The store then contains the roles \<^verbatim>\<open>a\<close> and \<^verbatim>\<open>b\<close>, and \<^verbatim>\<open>extendRole('a', ['b'])\<close>
  succeeds; but \<^verbatim>\<open>extendRole('b', ['a'])\<close> fails with \<^verbatim>\<open>Subject not found\<close>, thrown while the
  hierarchy of \<^verbatim>\<open>a\<close> is computed, and not with the cross-inheritance error.
\<close>

theorem cycle_error_counterexample:
  "AC_new 2 (GObject ghost_start) = Inr (unlocked ghost_start)
   \<and> AC_removeRoles (unlocked ghost_start) (Arr [''ghost'', ''nope''])
       = (Inl (RemoveNonExisting ''nope''), unlocked ghost_dangling)
   \<and> map_of ghost_dangling ''a'' \<noteq> None \<and> map_of ghost_dangling ''b'' \<noteq> None
   \<and> AC_extendRole 2 (unlocked ghost_dangling) (Str ''a'') (Arr [''b'']) False
       = (Inr (), unlocked ghost_extended)
   \<and> AC_extendRole 2 (unlocked ghost_extended) (Str ''b'') (Arr [''a'']) False
       = (Inl (SubjectNotFound None), unlocked ghost_extended)
   \<and> SubjectNotFound None \<noteq> CrossInheritance ''a'' ''b''"
  by code_simp

text \<open>
  C4, amended. Let \<^verbatim>\<open>extendRole(A, [B])\<close> have succeeded (the subject given as \<open>A\<close> or \<^verbatim>\<open>[A]\<close>,
  the extender as \<open>B\<close> or \<^verbatim>\<open>[B]\<close>). Then \<^verbatim>\<open>extendRole(B, [A])\<close> fails, whatever the store, and
  the instance after the failed call is the instance before it. When the hierarchy of
  \<open>A\<close> can be computed in the store, the error is the cross-inheritance error that names
  \<open>A\<close> as the role that already extends \<open>B\<close>. When it cannot, because an inheritance list
  that is reached from \<open>A\<close> names a role that the store does not have or because the stack
  is exhausted, the call fails with the error of that computation.
\<close>

theorem cycle_rejected:
  assumes first: "AC_extendRole fuel a sA eB replace = (Inr (), a1)"
    and sA: "toStringArray sA = [A]" and eB: "toStringArray eB = [B]"
    and sB: "toStringArray sB = [B]" and eA: "toStringArray eA = [A]"
  shows "(\<exists>e. AC_extendRole fuel' a1 sB eA replace' = (Inl e, a1))
       \<and> (\<forall>h. getRoleHierarchyOf fuel' (ac_grants a1) A None = Inr h \<longrightarrow>
              AC_extendRole fuel' a1 sB eA replace' = (Inl (CrossInheritance A B), a1))
       \<and> (\<forall>e. getRoleHierarchyOf fuel' (ac_grants a1) A None = Inl e \<longrightarrow>
              AC_extendRole fuel' a1 sB eA replace' = (Inl e, a1))"
proof -
  from first have nl: "\<not> isLocked a"
    by (auto simp: AC_extendRole_def split: if_splits)
  from first nl have ex: "extendRole fuel (ac_frozen a) (ac_grants a) sA eB replace = (Inr (), ac_grants a1)"
    by (auto simp: AC_extendRole_def split: prod.splits)
  from extendRole_keeps_flags [OF first] nl have nl1: "\<not> isLocked a1" by simp
  from extendRole_single_success[OF ex sA eB] obtain r ext where
    r: "map_of (ac_grants a) A = Some r" and B: "map_of (ac_grants a) B \<noteq> None" and AB: "A \<noteq> B"
    and vA: "validName A = Inr ()"
    and ne: "new_extend r [B] replace = Inr ext"
    and g1: "ac_grants a1 = AList.update A (AList.update ''_extend_'' (Extend ext) r) (ac_grants a)"
    by blast
  have A1: "map_of (ac_grants a1) A = Some (AList.update ''_extend_'' (Extend ext) r)"
    by (simp add: g1 update_conv')
  have B1: "map_of (ac_grants a1) B \<noteq> None"
    using B AB by (simp add: g1 update_conv')
  have Bext: "B \<in> set ext" using new_extend_contains[OF ne] by simp
  have nA: "A \<noteq> []" using validName_nonempty[OF vA] .
  note s = second_extend [OF A1 extend_of_update Bext B1 AB nA sB eA, of fuel' "ac_frozen a1" replace']
  have call: "AC_extendRole fuel' a1 sB eA replace' =
        (case getRoleHierarchyOf fuel' (ac_grants a1) A None of
           Inl e \<Rightarrow> (Inl e, a1)
         | Inr h \<Rightarrow> (Inl (CrossInheritance A B), a1))"
    using nl1 s by (simp add: AC_extendRole_def split: sum.splits)
  show ?thesis
    unfolding call by (cases "getRoleHierarchyOf fuel' (ac_grants a1) A None") simp_all
qed

theorem cycle_rejected_witness:
  "AC_extendRole 2 (unlocked two_roles) (Str ''a'') (Arr [''b'']) False
     = (Inr (), unlocked a_inherits_b)
   \<and> getRoleHierarchyOf 2 (ac_grants (unlocked a_inherits_b)) ''a'' None = Inr [''a'', ''b'']
   \<and> AC_extendRole 2 (unlocked a_inherits_b) (Str ''b'') (Arr [''a'']) False
     = (Inl (CrossInheritance ''a'' ''b''), unlocked a_inherits_b)
   \<and> getRoleHierarchyOf 1 (ac_grants (unlocked a_inherits_b)) ''a'' None = Inl RangeError
   \<and> AC_extendRole 1 (unlocked a_inherits_b) (Str ''b'') (Arr [''a'']) False
     = (Inl RangeError, unlocked a_inherits_b)"
proof -
  have h1: "AC_extendRole 2 (unlocked two_roles) (Str ''a'') (Arr [''b'']) False
            = (Inr (), unlocked a_inherits_b)"
    by code_simp
  have h2: "toStringArray (Str ''a'') = [''a'']" by code_simp
  have h3: "toStringArray (Arr [''b'']) = [''b'']" by code_simp
  have h4: "toStringArray (Str ''b'') = [''b'']" by code_simp
  have h5: "toStringArray (Arr [''a'']) = [''a'']" by code_simp
  have h6: "getRoleHierarchyOf 2 (ac_grants (unlocked a_inherits_b)) ''a'' None = Inr [''a'', ''b'']"
    by code_simp
  have h7: "getRoleHierarchyOf 1 (ac_grants (unlocked a_inherits_b)) ''a'' None = Inl RangeError"
    by code_simp
  from cycle_rejected [OF h1 h2 h3 h4 h5, of 2 False] h6
  have c2: "AC_extendRole 2 (unlocked a_inherits_b) (Str ''b'') (Arr [''a'']) False
     = (Inl (CrossInheritance ''a'' ''b''), unlocked a_inherits_b)"
    by blast
  from cycle_rejected [OF h1 h2 h3 h4 h5, of 1 False] h7
  have c1: "AC_extendRole 1 (unlocked a_inherits_b) (Str ''b'') (Arr [''a'']) False
     = (Inl RangeError, unlocked a_inherits_b)"
    by blast
  from h1 h6 h7 c1 c2 show ?thesis by blast
qed

subsection \<open>What a failed call leaves behind\<close>













subsection \<open>Names in reachable stores\<close>

lemma validName_iff: "validName n = Inr () \<longleftrightarrow> validName_ok n"
  by (auto simp: validName_def validName_ok_def)

lemma validName_Inr: "validName n = Inr u \<Longrightarrow> validName_ok n"
  by (auto simp: validName_def validName_ok_def split: if_splits)

lemma names_ok_iff:
  "names_ok g \<longleftrightarrow> (\<forall>s r. map_of g s = Some r \<longrightarrow> validName_ok s \<and> role_keys_ok r)"
proof
  assume n: "names_ok g"
  show "\<forall>s r. map_of g s = Some r \<longrightarrow> validName_ok s \<and> role_keys_ok r"
  proof (intro allI impI)
    fix s r assume m: "map_of g s = Some r"
    then have "s \<in> set (map fst g)" by (force dest: map_of_SomeD)
    with n m show "validName_ok s \<and> role_keys_ok r" by (auto simp: names_ok_def)
  qed
next
  assume a: "\<forall>s r. map_of g s = Some r \<longrightarrow> validName_ok s \<and> role_keys_ok r"
  show "names_ok g"
    unfolding names_ok_def
  proof
    fix s assume "s \<in> set (map fst g)"
    then obtain r where "map_of g s = Some r"
      by (cases "map_of g s") (auto simp: map_of_eq_None_iff)
    with a show "validName_ok s \<and> (case map_of g s of Some r \<Rightarrow> role_keys_ok r | None \<Rightarrow> True)"
      by auto
  qed
qed

lemma role_keys_ok_update:
  "role_keys_ok r \<Longrightarrow> k = ''_extend_'' \<or> validName_ok k \<Longrightarrow> role_keys_ok (AList.update k v r)"
  by (auto simp: role_keys_ok_def update_keys)

lemma role_keys_ok_delete: "role_keys_ok r \<Longrightarrow> role_keys_ok (AList.delete k r)"
  by (auto simp: role_keys_ok_def delete_keys)

lemma role_keys_ok_Nil: "role_keys_ok []"
  by (simp add: role_keys_ok_def)

lemma names_ok_update:
  "names_ok g \<Longrightarrow> validName_ok s \<Longrightarrow> role_keys_ok r \<Longrightarrow> names_ok (AList.update s r g)"
  by (auto simp: names_ok_iff update_conv' split: if_splits)

lemma names_ok_delete: "names_ok g \<Longrightarrow> names_ok (AList.delete s g)"
  by (auto simp: names_ok_iff delete_conv' split: if_splits)

lemma names_ok_lookup: "names_ok g \<Longrightarrow> map_of g s = Some r \<Longrightarrow> validName_ok s \<and> role_keys_ok r"
  by (auto simp: names_ok_iff)

lemma names_ok_Nil: "names_ok []"
  by (simp add: names_ok_def)

lemma preCreateRoles_each_names: "names_ok g \<Longrightarrow> names_ok (snd (preCreateRoles_each fr g ss))"
  by (induction ss arbitrary: g)
     (auto simp: names_ok_update role_keys_ok_Nil validName_Inr split: sum.splits)

lemma preCreateRoles_names: "names_ok g \<Longrightarrow> names_ok (snd (preCreateRoles fr g v))"
  by (auto simp: preCreateRoles_def preCreateRoles_each_names split: strs.splits)

lemma commit_resources_names:
  "names_ok g \<Longrightarrow> names_ok (snd (commit_resources fr g subject ap attributes resources))"
proof (induction resources arbitrary: g)
  case Nil
  then show ?case by simp
next
  case (Cons res resources)
  show ?case
  proof (cases "validName res")
    case (Inl e)
    with Cons.prems show ?thesis by simp
  next
    case (Inr u)
    then have v: "validName_ok res" by (rule validName_Inr)
    show ?thesis
    proof (cases "map_of g subject")
      case None
      with Inr Cons.prems show ?thesis by simp
    next
      case (Some grantItem)
      from names_ok_lookup[OF Cons.prems Some] have s: "validName_ok subject" "role_keys_ok grantItem"
        by auto
      let ?gi = "(case map_of grantItem res of
                           None \<Rightarrow> AList.update res (Resource [(ap, attributes)]) grantItem
                         | Some (Resource r) \<Rightarrow>
                             AList.update res (Resource (AList.update ap attributes r)) grantItem
                         | Some (Extend xs) \<Rightarrow> grantItem)"
      have "role_keys_ok ?gi" using s(2) v
        by (auto simp: role_keys_ok_update split: option.splits role_value.splits)
      then have "names_ok (AList.update subject ?gi g)"
        using Cons.prems s(1) by (simp add: names_ok_update)
      from Cons.IH[OF this] Inr Some Cons.prems show ?thesis
        by (auto simp: Let_def)
    qed
  qed
qed

lemma commit_subjects_names:
  "names_ok g \<Longrightarrow> names_ok (snd (commit_subjects fr g ap attributes resources subjects))"
proof (induction subjects arbitrary: g)
  case Nil
  then show ?case by simp
next
  case (Cons subject subjects)
  show ?case
  proof (cases "validName subject")
    case (Inl e)
    with Cons.prems show ?thesis by simp
  next
    case (Inr u)
    then have v: "validName_ok subject" by (rule validName_Inr)
    let ?g1 = "(if map_of g subject = None then AList.update subject [] g else g)"
    have g1: "names_ok ?g1" using Cons.prems v by (simp add: names_ok_update role_keys_ok_Nil)
    obtain res g2 where c: "commit_resources fr ?g1 subject ap attributes resources = (res, g2)"
      by (cases "commit_resources fr ?g1 subject ap attributes resources") auto
    from commit_resources_names[OF g1, of fr subject ap attributes resources] c
    have g2: "names_ok g2" by simp
    from Cons.IH[OF g2] Inr c Cons.prems g2 show ?thesis
      by (auto simp: Let_def split: sum.splits)
  qed
qed

lemma commitToGrants_names: "names_ok g \<Longrightarrow> names_ok (snd (commitToGrants fr g access all))"
  by (auto simp: commitToGrants_def commit_subjects_names split: sum.splits)


lemma keys_le_refl: "keys_le g g"
  by (auto simp: keys_le_def)

lemma keys_le_trans:
  assumes "keys_le g g1" and "keys_le g1 g2"
  shows "keys_le g g2"
  unfolding keys_le_def
proof (intro allI impI)
  fix s r2 assume "map_of g2 s = Some r2"
  with assms(2) obtain r1 where r1: "map_of g1 s = Some r1"
    "set (map fst r2) \<subseteq> insert ''_extend_'' (set (map fst r1))"
    unfolding keys_le_def by blast
  with assms(1) obtain r where r: "map_of g s = Some r"
    "set (map fst r1) \<subseteq> insert ''_extend_'' (set (map fst r))"
    unfolding keys_le_def by blast
  from r1(2) r(2) have "set (map fst r2) \<subseteq> insert ''_extend_'' (set (map fst r))"
    by blast
  with r(1) show "\<exists>r. map_of g s = Some r \<and> set (map fst r2) \<subseteq> insert ''_extend_'' (set (map fst r))"
    by blast
qed

lemma keys_update: "set (map fst (AList.update k v al)) = insert k (set (map fst al))"
  using dom_update[of k v al] by simp

lemma map_of_Some_key: "map_of al k = Some v \<Longrightarrow> k \<in> set (map fst al)"
  by (force dest: map_of_SomeD)

lemma keys_le_extend:
  "map_of g A = Some r \<Longrightarrow>
   keys_le g (AList.update A (AList.update ''_extend_'' v r) g)"
  by (auto simp: keys_le_def update_conv' keys_update simp del: set_map split: if_splits)

lemma extendRole_each_keys_le: "keys_le g (snd (extendRole_each fuel fr g exts replace ss))"
proof (induction ss arbitrary: g)
  case Nil
  then show ?case by (simp add: keys_le_refl)
next
  case (Cons s ss)
  show ?case
  proof (cases "extendRole_each fuel fr g exts replace [s]")
    case (Pair res g1)
    show ?thesis
    proof (cases res)
      case (Inl e)
      with Pair have "snd (extendRole_each fuel fr g exts replace (s # ss)) = g"
        by (auto split: option.splits if_splits sum.splits)
      then show ?thesis by (simp add: keys_le_refl)
    next
      case (Inr u)
      with Pair obtain r ext where r: "map_of g s = Some r"
        and g1: "g1 = AList.update s (AList.update ''_extend_'' (Extend ext) r) g"
        by (auto split: option.splits if_splits sum.splits)
      from Pair Inr have e: "extendRole_each fuel fr g exts replace (s # ss)
            = extendRole_each fuel fr g1 exts replace ss"
        by (auto split: option.splits if_splits sum.splits)
      have "keys_le g g1" using r g1 by (simp add: keys_le_extend)
      with Cons.IH[of g1] e show ?thesis by (auto intro: keys_le_trans)
    qed
  qed
qed

lemma extendRole_keys_le: "keys_le g (snd (extendRole fuel fr g s e replace))"
  by (auto simp: extendRole_def Let_def keys_le_refl extendRole_each_keys_le)

lemma names_ok_keys_le:
  assumes "names_ok g" and "keys_le g g'"
  shows "names_ok g'"
  unfolding names_ok_iff
proof (intro allI impI)
  fix s r' assume "map_of g' s = Some r'"
  with assms(2) obtain r where r: "map_of g s = Some r"
    "set (map fst r') \<subseteq> insert ''_extend_'' (set (map fst r))"
    unfolding keys_le_def by blast
  from assms(1) r(1) have "validName_ok s" "role_keys_ok r"
    by (auto simp: names_ok_iff)
  with r(2) show "validName_ok s \<and> role_keys_ok r'"
    unfolding role_keys_ok_def by blast
qed

lemma extendRole_names: "names_ok g \<Longrightarrow> names_ok (snd (extendRole fuel fr g s e replace))"
  using names_ok_keys_le extendRole_keys_le by blast

lemma removeRoles_each_names: "names_ok g \<Longrightarrow> names_ok (snd (removeRoles_each fr g ss))"
  by (induction ss arbitrary: g) (auto simp: names_ok_delete)

lemma map_of_map_snd': "map_of (map (\<lambda>(n, r). (n, f r)) g) k = map_option f (map_of g k)"
  by (induction g) auto

lemma role_keys_ok_prune: "role_keys_ok r \<Longrightarrow> role_keys_ok (prune_extend rem r)"
  by (auto simp: prune_extend_def role_keys_ok_update split: option.splits)

lemma names_ok_prune: "names_ok g \<Longrightarrow> names_ok (map (\<lambda>(n, r). (n, prune_extend rem r)) g)"
  by (auto simp: names_ok_iff map_of_map_snd' role_keys_ok_prune)

lemma removePermission_keys_ok:
  "role_keys_ok r \<Longrightarrow> role_keys_ok (snd (removePermission_keys fr resources ap r ks))"
proof (induction ks arbitrary: r)
  case Nil
  then show ?case by simp
next
  case (Cons k ks)
  have u: "\<And>d. map_of r k = Some (Resource d) \<Longrightarrow> role_keys_ok (AList.update k (Resource d') r)" for d'
    using Cons.prems map_of_Some_key[of r k]
    by (auto simp: role_keys_ok_def keys_update simp del: set_map)
  show ?case
    using Cons.prems Cons.IH u
    by (auto simp: role_keys_ok_delete split: sum.splits prod.splits option.splits role_value.splits)
qed

lemma removePermission_roles_names:
  "names_ok g \<Longrightarrow> names_ok (snd (removePermission_roles fr resources subjects ap g ss))"
proof (induction ss arbitrary: g)
  case Nil
  then show ?case by simp
next
  case (Cons s ss)
  show ?case
  proof (cases "map_of g s")
    case None
    with Cons.prems show ?thesis by simp
  next
    case (Some r)
    from names_ok_lookup[OF Cons.prems Some] have v: "validName_ok s" "role_keys_ok r" by auto
    obtain res r' where k: "removePermission_keys fr resources ap r (map fst r) = (res, r')"
      by (cases "removePermission_keys fr resources ap r (map fst r)") auto
    from removePermission_keys_ok[OF v(2), of fr resources ap "map fst r"] k
    have "role_keys_ok r'" by simp
    then have n: "names_ok (AList.update s r' g)" using Cons.prems v(1) by (simp add: names_ok_update)
    from Cons.IH[OF n] Cons.IH[OF Cons.prems] Some k n Cons.prems show ?thesis
      by (auto split: sum.splits)
  qed
qed

lemma validRoleObject_each_keys_le:
  "keys_le g (snd (validRoleObject_each fuel fr g s ks))"
proof (induction ks arbitrary: g)
  case Nil
  then show ?case by (simp add: keys_le_refl)
next
  case (Cons k ks)
  show ?case
  proof (cases "map_of g s")
    case None
    then show ?thesis by (simp add: keys_le_refl)
  next
    case (Some subject)
    show ?thesis
    proof (cases "validName_ok k")
      case True
      show ?thesis
      proof (cases "map_of subject k")
        case None
        with Some True show ?thesis by (simp add: keys_le_refl)
      next
        case v: (Some val)
        show ?thesis
        proof (cases val)
          case (Resource d)
          with Some True v Cons.IH [of g] show ?thesis
            by (cases "validResourceObject d") (simp_all add: keys_le_refl)
        next
          case (Extend xs)
          with Some True v show ?thesis by (simp add: keys_le_refl)
        qed
      qed
    next
      case False
      show ?thesis
      proof (cases "k = ''_extend_''")
        case nk: False
        with Some False show ?thesis by (simp add: keys_le_refl)
      next
        case k: True
        show ?thesis
        proof (cases "map_of subject k")
          case None
          with Some False k show ?thesis by (simp add: keys_le_refl)
        next
          case v: (Some val)
          show ?thesis
          proof (cases val)
            case (Resource d)
            with Some False k v show ?thesis by (simp add: keys_le_refl)
          next
            case (Extend xs)
            show ?thesis
            proof (cases "isFilledStringArray xs")
              case nf: False
              with Some False k v Extend show ?thesis by (simp add: keys_le_refl)
            next
              case f: True
              obtain res g1 where e: "extendRole fuel fr g (Str s) (Arr xs) False = (res, g1)"
                by (cases "extendRole fuel fr g (Str s) (Arr xs) False") auto
              from extendRole_keys_le [of g fuel fr "Str s" "Arr xs" False] e
              have le: "keys_le g g1" by simp
              show ?thesis
              proof (cases res)
                case (Inl err)
                with Some False k v Extend f e le show ?thesis by simp
              next
                case (Inr u)
                with Some False k v Extend f e
                have "snd (validRoleObject_each fuel fr g s (k # ks))
                      = snd (validRoleObject_each fuel fr g1 s ks)" by simp
                with le Cons.IH [of g1] show ?thesis by (auto intro: keys_le_trans)
              qed
            qed
          qed
        qed
      qed
    qed
  qed
qed

lemma validRoleObject_each_keys:
  "validRoleObject_each fuel fr g s ks = (Inr u, g') \<Longrightarrow>
   (\<forall>k \<in> set ks. k = ''_extend_'' \<or> validName_ok k)"
proof (induction ks arbitrary: g)
  case Nil
  then show ?case by simp
next
  case (Cons k ks)
  from Cons.prems obtain subject where subject: "map_of g s = Some subject"
    by (auto split: option.splits)
  show ?case
  proof (cases "validName_ok k")
    case True
    with Cons.prems subject have "validRoleObject_each fuel fr g s ks = (Inr u, g')"
      by (auto split: option.splits role_value.splits sum.splits)
    from Cons.IH[OF this] True show ?thesis by simp
  next
    case False
    with Cons.prems subject obtain extRoles g1 u1 where k: "k = ''_extend_''"
      and r: "validRoleObject_each fuel fr g1 s ks = (Inr u, g')"
      by (auto split: option.splits role_value.splits sum.splits if_splits prod.splits)
    with Cons.IH[OF r] show ?thesis by simp
  qed
qed

lemma validRoleObject_keys_le: "keys_le g (snd (validRoleObject fuel fr g s))"
  by (auto simp: validRoleObject_def keys_le_refl validRoleObject_each_keys_le split: option.splits)

lemma validRoleObject_keys:
  assumes "validRoleObject fuel fr g s = (Inr u, g')"
  shows "\<exists>subject. map_of g s = Some subject \<and> role_keys_ok subject"
proof -
  from assms obtain subject where subject: "map_of g s = Some subject"
    and e: "validRoleObject_each fuel fr g s (map fst subject) = (Inr u, g')"
    by (auto simp: validRoleObject_def split: option.splits)
  from validRoleObject_each_keys[OF e] subject show ?thesis
    by (auto simp: role_keys_ok_def)
qed

lemma inspect_each_keys_le: "keys_le g (snd (inspect_each fuel fr g ks))"
proof (induction ks arbitrary: g)
  case Nil
  then show ?case by (simp add: keys_le_refl)
next
  case (Cons s ks)
  obtain res g1 where o: "validRoleObject fuel fr g s = (res, g1)"
    by (cases "validRoleObject fuel fr g s") auto
  from validRoleObject_keys_le [of g fuel fr s] o have le: "keys_le g g1" by simp
  show ?case
  proof (cases "validName s")
    case (Inl e)
    then show ?thesis by (simp add: keys_le_refl)
  next
    case (Inr u)
    show ?thesis
    proof (cases res)
      case (Inl e)
      with Inr o le show ?thesis by simp
    next
      case r: (Inr u1)
      with Inr o have "snd (inspect_each fuel fr g (s # ks)) = snd (inspect_each fuel fr g1 ks)"
        by simp
      with le Cons.IH [of g1] show ?thesis by (auto intro: keys_le_trans)
    qed
  qed
qed

lemma inspect_each_keys:
  "inspect_each fuel fr g ks = (Inr u, g') \<Longrightarrow>
   (\<forall>s \<in> set ks. validName_ok s \<and> (\<forall>r'. map_of g' s = Some r' \<longrightarrow> role_keys_ok r'))"
proof (induction ks arbitrary: g)
  case Nil
  then show ?case by simp
next
  case (Cons s ks)
  obtain res g1 where o': "validRoleObject fuel fr g s = (res, g1)"
    by (cases "validRoleObject fuel fr g s") auto
  from Cons.prems o' obtain u0 where v: "validName s = Inr u0"
    by (cases "validName s") auto
  from Cons.prems o' v obtain u1 where o: "validRoleObject fuel fr g s = (Inr u1, g1)"
    and r: "inspect_each fuel fr g1 ks = (Inr u, g')"
    by (cases res) auto
  from validRoleObject_keys[OF o] obtain subject where
    subject: "map_of g s = Some subject" "role_keys_ok subject" by blast
  from validRoleObject_keys_le [of g fuel fr s] o have le1: "keys_le g g1" by simp
  from inspect_each_keys_le [of g1 fuel fr ks] r have le2: "keys_le g1 g'" by simp
  from Cons.IH[OF r]
  have rest: "\<forall>t \<in> set ks. validName_ok t \<and> (\<forall>r'. map_of g' t = Some r' \<longrightarrow> role_keys_ok r')" .
  have le: "keys_le g g'" using le1 le2 by (rule keys_le_trans)
  have here: "\<forall>r'. map_of g' s = Some r' \<longrightarrow> role_keys_ok r'"
  proof (intro allI impI)
    fix r' assume "map_of g' s = Some r'"
    with le obtain r0 where "map_of g s = Some r0"
        "set (map fst r') \<subseteq> insert ''_extend_'' (set (map fst r0))"
      unfolding keys_le_def by blast
    with subject(1) have "set (map fst r') \<subseteq> insert ''_extend_'' (set (map fst subject))"
      by simp
    with subject(2) show "role_keys_ok r'" unfolding role_keys_ok_def by blast
  qed
  have vs: "validName_ok s" using v by (rule validName_Inr)
  show ?case using here vs rest by simp
qed

lemma commit_items_names: "names_ok g \<Longrightarrow> names_ok (snd (commit_items g items))"
proof (induction items arbitrary: g)
  case Nil
  then show ?case by simp
next
  case (Cons item items)
  obtain res g1 where c: "commitToGrants False g item True = (res, g1)"
    by (cases "commitToGrants False g item True") auto
  from commitToGrants_names[OF Cons.prems, of False item True] c have n: "names_ok g1" by simp
  show ?case
  proof (cases res)
    case (Inl e)
    with c n show ?thesis by simp
  next
    case (Inr u)
    with c Cons.IH [OF n] show ?thesis by simp
  qed
qed

lemma inspected_object_names:
  assumes "inspect_each fuel fr obj (map fst obj) = (Inr u, g)"
  shows "names_ok g"
proof -
  from inspect_each_keys_le [of obj fuel fr "map fst obj"] assms have le: "keys_le obj g" by simp
  from inspect_each_keys [OF assms]
  have all: "\<forall>s \<in> set (map fst obj). validName_ok s \<and> (\<forall>r'. map_of g s = Some r' \<longrightarrow> role_keys_ok r')" .
  show ?thesis
    unfolding names_ok_iff
  proof (intro allI impI)
    fix s r' assume m: "map_of g s = Some r'"
    with le obtain r where "map_of obj s = Some r" unfolding keys_le_def by blast
    then have "s \<in> set (map fst obj)" by (rule map_of_Some_key)
    with all m show "validName_ok s \<and> role_keys_ok r'" by blast
  qed
qed

lemma inspected_held_names:
  assumes "names_ok obj"
  shows "names_ok (snd (inspect_each fuel fr obj ks))"
  using names_ok_keys_le [OF assms inspect_each_keys_le] .

lemma commitToGrants_namesD:
  "commitToGrants fr g access all = (res, g') \<Longrightarrow> names_ok g \<Longrightarrow> names_ok g'"
  using commitToGrants_names[of g fr access all] by simp

lemma preCreateRoles_namesD:
  "preCreateRoles fr g v = (res, g') \<Longrightarrow> names_ok g \<Longrightarrow> names_ok g'"
  using preCreateRoles_names[of g fr v] by simp

lemma extendRole_namesD:
  "extendRole fuel fr g s e replace = (res, g') \<Longrightarrow> names_ok g \<Longrightarrow> names_ok g'"
  using extendRole_names[of g fuel fr s e replace] by simp

lemma removeRoles_each_namesD:
  "removeRoles_each fr g ss = (res, g') \<Longrightarrow> names_ok g \<Longrightarrow> names_ok g'"
  using removeRoles_each_names[of g fr ss] by simp

lemma removePermission_roles_namesD:
  "removePermission_roles fr resources subjects ap g ss = (res, g') \<Longrightarrow> names_ok g \<Longrightarrow> names_ok g'"
  using removePermission_roles_names[of g fr resources subjects ap ss] by simp

lemma objects_ok_object: "objects_ok a \<Longrightarrow> names_ok (fst (object_of a i))"
  by (auto simp: objects_ok_def object_of_def names_ok_Nil split: option.splits)

lemma objects_ok_grants: "objects_ok a \<Longrightarrow> names_ok g \<Longrightarrow> objects_ok (a\<lparr>ac_grants := g\<rparr>)"
  by (simp add: objects_ok_def)

lemma objects_ok_write: "objects_ok a \<Longrightarrow> names_ok g \<Longrightarrow> objects_ok (write_object a i g)"
  by (auto simp: objects_ok_def write_object_def update_conv' split: if_splits)

lemma objects_ok_replace: "objects_ok a \<Longrightarrow> names_ok g \<Longrightarrow> objects_ok (replace_object a g)"
  by (auto simp: objects_ok_def replace_object_def update_conv' split: if_splits)

lemma objects_ok_adopt: "objects_ok a \<Longrightarrow> objects_ok (adopt a i)"
proof -
  assume o: "objects_ok a"
  from objects_ok_object [OF o, of i] have n: "names_ok (fst (object_of a i))" .
  show ?thesis
  proof (cases "i = ac_id a")
    case True
    with o show ?thesis by (simp add: adopt_def)
  next
    case False
    with o n show ?thesis
      by (auto simp: objects_ok_def adopt_def update_conv' delete_conv' split: if_splits)
  qed
qed

lemma objects_ok_flags:
  "objects_ok a \<Longrightarrow> objects_ok (a\<lparr>ac_frozen := x\<rparr>) \<and> objects_ok (a\<lparr>ac_isLocked := y\<rparr>)
     \<and> objects_ok (a\<lparr>ac_frozen := x, ac_isLocked := y\<rparr>)"
  by (simp add: objects_ok_def)

lemma AC_new_objects_ok:
  assumes "AC_new fuel inp = Inr a"
  shows "objects_ok a"
proof (cases inp)
  case (GObject obj)
  with assms obtain u g where i: "inspect_each fuel False obj (map fst obj) = (Inr u, g)"
    and a: "a = \<lparr>ac_grants = g, ac_frozen = False, ac_isLocked = False, ac_id = 0, ac_old = []\<rparr>"
    by (auto simp: AC_new_def getInspectedGrants_def split: prod.splits sum.splits)
  from inspected_object_names [OF i] a show ?thesis by (simp add: objects_ok_def)
next
  case (GHeld i)
  with assms have "ac_grants a = [] \<and> ac_old a = []"
    by (auto simp: AC_new_def getInspectedGrants_def split: prod.splits sum.splits)
  then show ?thesis by (simp add: objects_ok_def names_ok_Nil)
next
  case (GArray items)
  with assms obtain u g where i: "commit_items [] items = (Inr u, g)"
    and a: "a = \<lparr>ac_grants = g, ac_frozen = False, ac_isLocked = False, ac_id = 0, ac_old = []\<rparr>"
    by (auto simp: AC_new_def getInspectedGrants_def split: prod.splits sum.splits)
  from commit_items_names [OF names_ok_Nil, of items] i have "names_ok g" by simp
  with a show ?thesis by (simp add: objects_ok_def)
next
  case GBoolOrEmpty
  with assms show ?thesis by (simp add: AC_new_def)
next
  case GOther
  with assms show ?thesis by (simp add: AC_new_def getInspectedGrants_def)
qed

lemma AC_setGrants_objects_ok:
  assumes o: "objects_ok a"
  shows "objects_ok (snd (AC_setGrants fuel a inp))"
proof (cases "isLocked a")
  case True
  with o show ?thesis by (simp add: AC_setGrants_def)
next
  case False
  show ?thesis
  proof (cases inp)
    case (GObject obj)
    obtain res g where i: "inspect_each fuel False obj (map fst obj) = (res, g)"
      by (cases "inspect_each fuel False obj (map fst obj)") auto
    show ?thesis
    proof (cases res)
      case (Inl e)
      with False GObject i o show ?thesis
        by (simp add: AC_setGrants_def getInspectedGrants_def inspect_arg_of_def)
    next
      case (Inr u)
      with i inspected_object_names have "names_ok g" by blast
      from objects_ok_replace [OF o this] False GObject i Inr show ?thesis
        by (simp add: AC_setGrants_def getInspectedGrants_def inspect_arg_of_def)
    qed
  next
    case (GHeld h)
    let ?obj = "fst (object_of a h)"
    obtain res g where i: "inspect_each fuel (snd (object_of a h)) ?obj (map fst ?obj) = (res, g)"
      by (cases "inspect_each fuel (snd (object_of a h)) ?obj (map fst ?obj)") auto
    from inspected_held_names [OF objects_ok_object [OF o, of h], of fuel "snd (object_of a h)" "map fst ?obj"] i
    have "names_ok g" by simp
    from objects_ok_write [OF o this, of h] have w: "objects_ok (write_object a h g)" .
    show ?thesis
    proof (cases res)
      case (Inl e)
      with False GHeld i w show ?thesis
        by (simp add: AC_setGrants_def getInspectedGrants_def inspect_arg_of_def)
    next
      case (Inr u)
      with False GHeld i objects_ok_adopt [OF w, of h] show ?thesis
        by (simp add: AC_setGrants_def getInspectedGrants_def inspect_arg_of_def)
    qed
  next
    case (GArray items)
    obtain res g where i: "commit_items [] items = (res, g)"
      by (cases "commit_items [] items") auto
    from commit_items_names [OF names_ok_Nil, of items] i have n: "names_ok g" by simp
    show ?thesis
    proof (cases res)
      case (Inl e)
      with False GArray i o show ?thesis
        by (simp add: AC_setGrants_def getInspectedGrants_def inspect_arg_of_def)
    next
      case (Inr u)
      from objects_ok_replace [OF o n] False GArray i Inr show ?thesis
        by (simp add: AC_setGrants_def getInspectedGrants_def inspect_arg_of_def)
    qed
  next
    case GBoolOrEmpty
    with False o show ?thesis
      by (simp add: AC_setGrants_def getInspectedGrants_def inspect_arg_of_def)
  next
    case GOther
    with False o show ?thesis
      by (simp add: AC_setGrants_def getInspectedGrants_def inspect_arg_of_def)
  qed
qed

lemma Access_subject_objects_ok:
  assumes o: "objects_ok a"
  shows "objects_ok (snd (Access_subject a b v))"
proof -
  let ?g = "fst (object_of a (acc_ref b))" and ?fr = "snd (object_of a (acc_ref b))"
  obtain res g where p: "preCreateRoles ?fr ?g v = (res, g)"
    by (cases "preCreateRoles ?fr ?g v") auto
  from preCreateRoles_namesD [OF p objects_ok_object [OF o]] have "names_ok g" .
  from objects_ok_write [OF o this, of "acc_ref b"] p show ?thesis
    by (cases res) (simp_all add: Access_subject_def)
qed

lemma Access_extend_objects_ok:
  assumes o: "objects_ok a"
  shows "objects_ok (snd (Access_extend fuel a b v))"
proof -
  let ?g = "fst (object_of a (acc_ref b))" and ?fr = "snd (object_of a (acc_ref b))"
  obtain res g where p: "extendRole fuel ?fr ?g (a_subject (acc_info b)) v False = (res, g)"
    by (cases "extendRole fuel ?fr ?g (a_subject (acc_info b)) v False") auto
  from extendRole_namesD [OF p objects_ok_object [OF o]] have "names_ok g" .
  from objects_ok_write [OF o this, of "acc_ref b"] p show ?thesis
    by (cases res) (simp_all add: Access_extend_def)
qed

lemma Access_prepareAndCommit_objects_ok:
  assumes o: "objects_ok a"
  shows "objects_ok (snd (Access_prepareAndCommit a b action possession resource attributes))"
proof -
  let ?g = "fst (object_of a (acc_ref b))" and ?fr = "snd (object_of a (acc_ref b))"
  let ?d = "prepared (acc_info b) action possession resource attributes"
  obtain res g where p: "commitToGrants ?fr ?g ?d False = (res, g)"
    by (cases "commitToGrants ?fr ?g ?d False") auto
  from commitToGrants_namesD [OF p objects_ok_object [OF o]] have "names_ok g" .
  from objects_ok_write [OF o this, of "acc_ref b"] p show ?thesis
    by (cases res) (simp_all add: Access_prepareAndCommit_def Let_def)
qed

lemma Access_new_objects_ok:
  assumes o: "objects_ok a"
  shows "objects_ok (snd (Access_new a arg denied))"
proof (cases arg)
  case Omitted
  with o show ?thesis by (simp add: Access_new_def)
next
  case (Subjects v)
  with o Access_subject_objects_ok [OF o, of _ v] show ?thesis
    by (cases v) (simp_all add: Access_new_def)
next
  case (Info i)
  let ?d = "resetAttributes (i\<lparr>a_denied := denied\<rparr>)"
  obtain res g where c: "commitToGrants (ac_frozen a) (ac_grants a) ?d True = (res, g)"
    by (cases "commitToGrants (ac_frozen a) (ac_grants a) ?d True") auto
  from o have "names_ok (ac_grants a)" by (simp add: objects_ok_def)
  from commitToGrants_namesD [OF c this] have "names_ok g" .
  from objects_ok_grants [OF o this] o Info c show ?thesis
    by (cases res) (simp_all add: Access_new_def Let_def)
next
  case EmptyInfo
  with o show ?thesis by (simp add: Access_new_def)
qed

lemma AC_removePermission_objects_ok:
  assumes o: "objects_ok a"
  shows "objects_ok (snd (AC_removePermission a resources subjects ap))"
proof -
  let ?ss = "(if subjects = Undefined then None else Some (toStringArray subjects))"
  obtain res g where c: "removePermission_roles (ac_frozen a) (toStringArray resources) ?ss ap
       (ac_grants a) (map fst (ac_grants a)) = (res, g)"
    by (cases "removePermission_roles (ac_frozen a) (toStringArray resources) ?ss ap
       (ac_grants a) (map fst (ac_grants a))") auto
  from o have "names_ok (ac_grants a)" by (simp add: objects_ok_def)
  from removePermission_roles_namesD [OF c this] have "names_ok g" .
  from objects_ok_grants [OF o this] o c show ?thesis
    by (simp add: AC_removePermission_def Let_def)
qed

lemma AC_extendRole_objects_ok:
  assumes o: "objects_ok a"
  shows "objects_ok (snd (AC_extendRole fuel a subjects exts replace))"
proof -
  obtain res g where p: "extendRole fuel (ac_frozen a) (ac_grants a) subjects exts replace = (res, g)"
    by (cases "extendRole fuel (ac_frozen a) (ac_grants a) subjects exts replace") auto
  from o have "names_ok (ac_grants a)" by (simp add: objects_ok_def)
  from extendRole_namesD [OF p this] have "names_ok g" .
  from objects_ok_grants [OF o this] o p show ?thesis
    by (simp add: AC_extendRole_def)
qed

lemma AC_removeRoles_objects_ok:
  assumes o: "objects_ok a"
  shows "objects_ok (snd (AC_removeRoles a subjects))"
proof -
  obtain res g where p: "removeRoles_each (ac_frozen a) (ac_grants a) (toStringArray subjects) = (res, g)"
    by (cases "removeRoles_each (ac_frozen a) (ac_grants a) (toStringArray subjects)") auto
  from o have "names_ok (ac_grants a)" by (simp add: objects_ok_def)
  from removeRoles_each_namesD [OF p this] have n: "names_ok g" .
  from objects_ok_grants [OF o n]
    objects_ok_grants [OF o names_ok_prune [OF n, of "toStringArray subjects"]] o p
  show ?thesis
    by (cases res) (simp_all add: AC_removeRoles_def Let_def)
qed

lemma lockAC_objects_ok: "objects_ok a \<Longrightarrow> objects_ok (snd (lockAC a))"
  by (auto simp: lockAC_def deepFreeze_def objects_ok_def)

lemma reachable_objects_ok: "reachable a \<Longrightarrow> objects_ok a"
proof (induction rule: reachable.induct)
  case (r_new fuel inp a)
  then show ?case by (rule AC_new_objects_ok)
next
  case (r_setGrants a fuel inp)
  then show ?case by (simp add: AC_setGrants_objects_ok)
next
  case (r_reset a)
  then show ?case by (simp add: AC_reset_def objects_ok_replace names_ok_Nil)
next
  case (r_lock a)
  then show ?case by (simp add: AC_lock_def lockAC_objects_ok)
next
  case (r_extendRole a fuel subjects exts replace)
  then show ?case by (simp add: AC_extendRole_objects_ok)
next
  case (r_removeRoles a subjects)
  then show ?case by (simp add: AC_removeRoles_objects_ok)
next
  case (r_removeResources a resources subjects)
  then show ?case by (simp add: AC_removeResources_def AC_removePermission_objects_ok)
next
  case (r_grant a arg)
  then show ?case by (simp add: AC_grant_def Access_new_objects_ok)
next
  case (r_deny a arg)
  then show ?case by (simp add: AC_deny_def Access_new_objects_ok)
next
  case (r_access_grant a arg)
  with Access_new_objects_ok [of a arg False] show ?case
    by (cases "Access_new a arg False") (auto simp: Access_grant_def split: sum.splits)
next
  case (r_access_deny a arg)
  with Access_new_objects_ok [of a arg True] show ?case
    by (cases "Access_new a arg True") (auto simp: Access_deny_def split: sum.splits)
next
  case (r_access_subject a b v)
  then show ?case by (simp add: Access_subject_objects_ok)
next
  case (r_access_extend a fuel b subjects)
  then show ?case by (simp add: Access_extend_objects_ok)
next
  case (r_access_lock a b)
  with lockAC_objects_ok [of a] show ?case
    by (cases "lockAC a") (auto simp: Access_lock_def split: sum.splits)
next
  case (r_access_commit a b action possession resource attributes)
  then show ?case by (simp add: Access_prepareAndCommit_objects_ok)
qed

lemma reachable_names_ok: "reachable a \<Longrightarrow> names_ok (ac_grants a)"
  using reachable_objects_ok [of a] by (simp add: objects_ok_def)

lemma validName_ok_nonempty: "validName_ok n \<Longrightarrow> n \<noteq> [] \<and> n \<notin> set RESERVED_KEYWORDS"
  by (auto simp: validName_ok_def js_trim_def)

lemma validName_ok_facts:
  "validName_ok n \<Longrightarrow> n \<noteq> [] \<and> js_trim n \<noteq> [] \<and> n \<notin> set RESERVED_KEYWORDS"
  using validName_ok_nonempty [of n] by (simp add: validName_ok_def)

text \<open>
  C5, as stated, fails: \<^verbatim>\<open>setGrants\<close> accepts a nested mapping whose resource entry has the
  key \<^verbatim>\<open>foo\<close> (\<open>validResourceObject\<close> checks the attribute lists, not the keys), and a flat
  record with the action \<^verbatim>\<open>fly\<close> is committed under the key \<^verbatim>\<open>fly:any\<close>
  (\<open>normalizeActionPossession\<close> checks the possession, not the action). Neither key is one
  of the eight normalized action-possession keys.
\<close>

theorem action_keys_counterexample:
  "AC_new 1 (GObject odd_key) = Inr (unlocked odd_key)
   \<and> map_of odd_key ''admin'' = Some [(''profile'', Resource [(''foo'', [''*''])])]
   \<and> ''foo'' \<notin> set action_possession_keys
   \<and> AC_new 1 (GArray [fly_record])
       = Inr (unlocked [(''admin'', [(''profile'', Resource [(''fly:any'', [''*''])])])])
   \<and> ''fly:any'' \<notin> set action_possession_keys
   \<and> ac_grants (snd (AC_setGrants 1 AC_init (GObject odd_key))) = odd_key
   \<and> ac_grants (snd (AC_setGrants 1 AC_init (GArray [fly_record])))
       = [(''admin'', [(''profile'', Resource [(''fly:any'', [''*''])])])]"
  by code_simp

text \<open>
  C5, amended. In every store that the public operations produce (the constructor and
  \<^verbatim>\<open>setGrants\<close> with a nested or a flat input, \<^verbatim>\<open>reset\<close>, \<^verbatim>\<open>lock\<close>, \<^verbatim>\<open>grant\<close> and \<^verbatim>\<open>deny\<close> with the builder's
  methods, \<^verbatim>\<open>extendRole\<close>, \<^verbatim>\<open>removeRoles\<close>, \<^verbatim>\<open>removeResources\<close>, returning or throwing), every
  subject name is a name that \<open>validName\<close> accepts: not blank, hence not empty, and not a
  reserved keyword; and so is every key of every subject other than the reserved key
  \<^verbatim>\<open>_extend_\<close> of the inheritance list, that is every resource name. The keys of a resource
  entry are not restricted.
\<close>

theorem reachable_names_valid:
  assumes "reachable a"
  shows "names_ok (ac_grants a)
       \<and> (\<forall>s r. map_of (ac_grants a) s = Some r \<longrightarrow>
             s \<noteq> [] \<and> js_trim s \<noteq> [] \<and> s \<notin> set RESERVED_KEYWORDS
             \<and> (\<forall>k \<in> set (map fst r).
                   k = ''_extend_'' \<or> (k \<noteq> [] \<and> js_trim k \<noteq> [] \<and> k \<notin> set RESERVED_KEYWORDS)))"
proof (intro conjI allI impI)
  from assms show n: "names_ok (ac_grants a)" by (rule reachable_names_ok)
  fix s r assume m: "map_of (ac_grants a) s = Some r"
  from n m have v: "validName_ok s" and k: "role_keys_ok r"
    using names_ok_lookup by blast+
  from validName_ok_facts [OF v]
  show "s \<noteq> []" and "js_trim s \<noteq> []" and "s \<notin> set RESERVED_KEYWORDS" by simp_all
  show "\<forall>k \<in> set (map fst r).
          k = ''_extend_'' \<or> (k \<noteq> [] \<and> js_trim k \<noteq> [] \<and> k \<notin> set RESERVED_KEYWORDS)"
  proof
    fix x assume "x \<in> set (map fst r)"
    with k have "x = ''_extend_'' \<or> validName_ok x"
      unfolding role_keys_ok_def by blast
    then show "x = ''_extend_'' \<or> (x \<noteq> [] \<and> js_trim x \<noteq> [] \<and> x \<notin> set RESERVED_KEYWORDS)"
      using validName_ok_facts [of x] by blast
  qed
qed

theorem reachable_names_valid_witness:
  "reachable (unlocked admin_granted) \<and> names_ok (ac_grants (unlocked admin_granted))"
proof -
  have e: "snd (Access_prepareAndCommit (snd (AC_grant AC_init (Subjects (Str ''admin''))))
             \<lparr>acc_info = empty_access\<lparr>a_subject := Str ''admin''\<rparr>, acc_ref = 0\<rparr>
             (Some ''create'') (Some ''any'') (Str ''profile'') Undefined)
           = unlocked admin_granted"
    by code_simp
  have n: "AC_new 0 (GObject []) = Inr AC_init"
    by code_simp
  have "reachable AC_init"
    by (rule r_new [OF n])
  then have "reachable (snd (AC_grant AC_init (Subjects (Str ''admin''))))"
    by (rule r_grant)
  then have "reachable (snd (Access_prepareAndCommit (snd (AC_grant AC_init (Subjects (Str ''admin''))))
             \<lparr>acc_info = empty_access\<lparr>a_subject := Str ''admin''\<rparr>, acc_ref = 0\<rparr>
             (Some ''create'') (Some ''any'') (Str ''profile'') Undefined))"
    by (rule r_access_commit)
  with e have r: "reachable (unlocked admin_granted)" by simp
  from reachable_names_valid [OF r] r show ?thesis by blast
qed

subsection \<open>Flat records and the nested mapping\<close>















lemma table_of_SomeI:
  "map_of g s = Some role \<Longrightarrow> map_of role r = Some (Resource d) \<Longrightarrow>
   table_of g s r k = map_of d k"
  by (simp add: table_of_def)

























subsection \<open>Queries leave the grants alone\<close>

lemma frame_refl: "n \<le> length h \<Longrightarrow> frame n h h"
  by (simp add: frame_def)

lemma frame_trans: "frame n h h' \<Longrightarrow> frame n h' h'' \<Longrightarrow> frame n h h''"
  by (auto simp: frame_def)

lemma frame_alloc: "n \<le> length h \<Longrightarrow> frame n h (snd (alloc h obj))"
  by (auto simp: frame_def alloc_def nth_append)

lemma fst_alloc: "fst (alloc h obj) = length h"
  by (simp add: alloc_def)

lemma length_assign: "length (assign h c f) = length h"
  by (simp add: assign_def split: option.splits)

lemma frame_assign: "n \<le> length h \<Longrightarrow> n \<le> c \<Longrightarrow> frame n h (assign h c f)"
  by (auto simp: frame_def assign_def split: option.splits)

lemma frame_concat_copy: "n \<le> length h \<Longrightarrow> frame n h (snd (concat_copy h a))"
  by (simp add: concat_copy_def frame_alloc)

lemma fst_concat_copy: "fst (concat_copy h a) = length h"
  by (simp add: concat_copy_def fst_alloc)

lemma frame_length: "frame n h h' \<Longrightarrow> n \<le> length h'"
  by (simp add: frame_def)

lemma frame_toStringArray: "n \<le> length h \<Longrightarrow> frame n h (snd (toStringArray_ref h v))"
  by (cases v) (simp_all add: toStringArray_ref_def frame_alloc frame_refl)

lemma frame_normalizeActionPossession:
  assumes "n \<le> length h" and "n \<le> c"
  shows "frame n h (snd (normalizeActionPossession_ref h c))"
proof (cases "record_at h c")
  case None
  with assms show ?thesis by (simp add: normalizeActionPossession_ref_def frame_refl)
next
  case (Some r)
  show ?thesis
  proof (cases "r_action r")
    case None
    with Some assms show ?thesis by (simp add: normalizeActionPossession_ref_def frame_refl)
  next
    case a: (Some act)
    let ?h1 = "assign h c
        (\<lambda>r. r\<lparr>r_action := Some (js_toLowerCase (js_trim (js_str (js_nth (js_split CHR '':'' act) 0))))\<rparr>)"
    have 1: "frame n h ?h1" using assms by (rule frame_assign)
    have l: "n \<le> length ?h1" using assms(1) by (simp add: length_assign)
    have 2: "\<And>f. frame n h (assign ?h1 c f)"
      using frame_trans [OF 1 frame_assign [OF l assms(2)]] .
    from Some a 1 2 show ?thesis
      by (simp add: normalizeActionPossession_ref_def Let_def)
  qed
qed

lemma frame_normalizeQueryInfo:
  "frame (length h) h (snd (normalizeQueryInfo_ref h q))
   \<and> (\<forall>c. fst (normalizeQueryInfo_ref h q) = Inr c \<longrightarrow> c = length h)"
proof (cases "record_at h q")
  case None
  then show ?thesis by (simp add: normalizeQueryInfo_ref_def frame_refl)
next
  case (Some r)
  let ?n = "length h"
  let ?h1 = "h @ [Record r]"
  obtain sa h2 where t: "toStringArray_ref ?h1 (r_subject r) = (sa, h2)"
    by (cases "toStringArray_ref ?h1 (r_subject r)") auto
  have f1: "frame ?n h ?h1" by (simp add: frame_def nth_append)
  have f2: "frame ?n h h2"
    using frame_trans [OF f1 frame_toStringArray [of ?n ?h1 "r_subject r"]] t by simp
  let ?h3 = "assign h2 ?n (\<lambda>r. r\<lparr>r_subject := RArr sa\<rparr>)"
  have f3: "frame ?n h ?h3"
    using frame_trans [OF f2 frame_assign [OF frame_length [OF f2] order_refl]] .
  show ?thesis
  proof (cases "r_resource r")
    case None
    with Some t f3 show ?thesis
      by (simp add: normalizeQueryInfo_ref_def alloc_def Let_def)
  next
    case res: (Some res)
    let ?h4 = "assign ?h3 ?n (\<lambda>r. r\<lparr>r_resource := Some (js_trim res)\<rparr>)"
    have f4: "frame ?n h ?h4"
      using frame_trans [OF f3 frame_assign [OF frame_length [OF f3] order_refl]] .
    have f5: "frame ?n h (snd (normalizeActionPossession_ref ?h4 ?n))"
      using frame_trans [OF f4 frame_normalizeActionPossession [OF frame_length [OF f4] order_refl]] .
    obtain r5 h5 where n: "normalizeActionPossession_ref ?h4 ?n = (r5, h5)"
      by (cases "normalizeActionPossession_ref ?h4 ?n") auto
    with f5 have f5': "frame ?n h h5" by simp
    from Some t res n f3 f5' show ?thesis
      by (cases r5) (simp_all add: normalizeQueryInfo_ref_def alloc_def Let_def)
  qed
qed

lemma frame_copy_found:
  assumes "n \<le> length h"
  shows "frame n h (snd (copy_found h v act poss)) \<and> n \<le> fst (copy_found h v act poss)"
proof -
  have e: "frame n h (snd (concat_copy (snd (alloc h (Array []))) (length h)))
           \<and> n \<le> fst (concat_copy (snd (alloc h (Array []))) (length h))"
    using frame_trans [OF frame_alloc [OF assms, of "Array []"]
        frame_concat_copy [OF frame_length [OF frame_alloc [OF assms, of "Array []"]]]]
      assms
    by (simp add: fst_concat_copy alloc_def)
  have c: "\<And>a. frame n h (snd (concat_copy h a)) \<and> n \<le> fst (concat_copy h a)"
    using frame_concat_copy [OF assms] assms by (simp add: fst_concat_copy)
  show ?thesis
    unfolding copy_found_def using e c by (auto split: ref_value.splits option.splits)
qed

lemma frame_collect_copies:
  assumes "n \<le> length h" and "\<forall>x \<in> set acc. n \<le> x"
  shows "frame n h (snd (collect_copies h rg res act poss ss acc))
       \<and> (\<forall>cs. fst (collect_copies h rg res act poss ss acc) = Inr cs \<longrightarrow> (\<forall>x \<in> set cs. n \<le> x))"
  using assms
proof (induction ss arbitrary: h acc)
  case Nil
  then show ?case by (simp add: frame_refl)
next
  case (Cons s ss)
  show ?case
  proof (cases "map_of rg s")
    case None
    with Cons.prems show ?thesis by (simp add: frame_refl)
  next
    case (Some subject)
    show ?thesis
    proof (cases "map_of subject res")
      case None
      with Some Cons.IH [OF Cons.prems] show ?thesis by simp
    next
      case v: (Some v)
      obtain c1 h1 where p: "copy_found h v act poss = (c1, h1)"
        by (cases "copy_found h v act poss") auto
      with frame_copy_found [OF Cons.prems(1), of v act poss]
      have f1: "frame n h h1" and n1: "n \<le> c1" by simp_all
      have a1: "\<forall>x \<in> set (acc @ [c1]). n \<le> x" using Cons.prems(2) n1 by simp
      from Cons.IH [OF frame_length [OF f1] a1]
      have i: "frame n h1 (snd (collect_copies h1 rg res act poss ss (acc @ [c1])))"
        "\<forall>cs. fst (collect_copies h1 rg res act poss ss (acc @ [c1])) = Inr cs
              \<longrightarrow> (\<forall>x \<in> set cs. n \<le> x)"
        by blast+
      have u: "collect_copies h rg res act poss (s # ss) acc
               = collect_copies h1 rg res act poss ss (acc @ [c1])"
        using Some v p by simp
      from frame_trans [OF f1 i(1)] i(2)
      have "frame n h (snd (collect_copies h1 rg res act poss ss (acc @ [c1])))
            \<and> (\<forall>cs. fst (collect_copies h1 rg res act poss ss (acc @ [c1])) = Inr cs
                  \<longrightarrow> (\<forall>x \<in> set cs. n \<le> x))"
        by blast
      then show ?thesis unfolding u by blast
    qed
  qed
qed

lemma frame_union_all:
  assumes "union_frame glob_union_ref"
  shows "n \<le> length h \<Longrightarrow> n \<le> attrs \<Longrightarrow> \<forall>x \<in> set rest. n \<le> x \<Longrightarrow>
         frame n h (snd (union_all_ref glob_union_ref h attrs rest))"
proof (induction rest arbitrary: h attrs)
  case Nil
  then show ?case by (simp add: frame_refl)
next
  case (Cons x rest)
  obtain attrs' h' where u: "glob_union_ref h attrs x = (attrs', h')"
    by (cases "glob_union_ref h attrs x") auto
  from assms have uf: "length h \<le> length (snd (glob_union_ref h attrs x))"
    "fst (glob_union_ref h attrs x) = attrs \<or> fst (glob_union_ref h attrs x) = x \<or> length h \<le> fst (glob_union_ref h attrs x)"
    "\<forall>y < length h. y \<noteq> attrs \<and> y \<noteq> x \<longrightarrow> snd (glob_union_ref h attrs x) ! y = h ! y"
    unfolding union_frame_def by blast+
  from Cons.prems have nx: "n \<le> x" by simp
  have f: "frame n h h'"
    using uf(1,3) u Cons.prems(1,2) nx by (auto simp: frame_def)
  have a: "n \<le> attrs'"
    using uf(2) u Cons.prems(1,2) nx by auto
  from Cons.prems(3) have r: "\<forall>y \<in> set rest. n \<le> y" by simp
  from frame_trans [OF f Cons.IH [OF frame_length [OF f] a r]] u show ?case by simp
qed

lemma frame_getUnionAttrsOfRoles:
  assumes "union_frame glob_union_ref"
  shows "frame (length h) h (snd (getUnionAttrsOfRoles_ref glob_union_ref fuel h rg q))"
proof -
  let ?n = "length h"
  obtain r1 h1 where nq: "normalizeQueryInfo_ref h q = (r1, h1)"
    by (cases "normalizeQueryInfo_ref h q") auto
  from frame_normalizeQueryInfo [of h q] nq have f1: "frame ?n h h1" by simp
  show ?thesis
  proof (cases r1)
    case (Inl e)
    with nq f1 show ?thesis by (simp add: getUnionAttrsOfRoles_ref_def)
  next
    case (Inr c)
    show ?thesis
    proof (cases "record_at h1 c")
      case None
      with nq Inr f1 show ?thesis by (simp add: getUnionAttrsOfRoles_ref_def)
    next
      case (Some query)
      show ?thesis
      proof (cases "getFlatRoles fuel (grants_at h1 rg) (strs_at h1 (r_subject query))")
        case e: (Inl e)
        with nq Inr Some f1 show ?thesis by (simp add: getUnionAttrsOfRoles_ref_def)
      next
        case ss: (Inr subjects)
        obtain r2 h2 where cc: "collect_copies h1 rg (js_str (r_resource query))
            (js_str (r_action query)) (js_str (r_possession query)) subjects [] = (r2, h2)"
          by (cases "collect_copies h1 rg (js_str (r_resource query))
            (js_str (r_action query)) (js_str (r_possession query)) subjects []") auto
        from frame_collect_copies [OF frame_length [OF f1], of "[]" rg "js_str (r_resource query)"
            "js_str (r_action query)" "js_str (r_possession query)" subjects] cc
        have f12: "frame ?n h1 h2" and cs: "\<forall>cs. r2 = Inr cs \<longrightarrow> (\<forall>x \<in> set cs. ?n \<le> x)"
          by simp_all
        have f2: "frame ?n h h2" using frame_trans [OF f1 f12] .
        show ?thesis
        proof (cases r2)
          case e: (Inl e)
          with nq Inr Some ss cc f2 show ?thesis by (simp add: getUnionAttrsOfRoles_ref_def)
        next
          case l: (Inr attrsList)
          let ?h3 = "h2 @ [Array []]"
          have f3: "frame ?n h ?h3"
            using frame_trans [OF f2 frame_alloc [OF frame_length [OF f2], of "Array []"]]
            by (simp add: alloc_def)
          show ?thesis
          proof (cases attrsList)
            case Nil
            with nq Inr Some ss cc l f3 show ?thesis
              by (simp add: getUnionAttrsOfRoles_ref_def alloc_def)
          next
            case (Cons a rest)
            with cs l have "?n \<le> a" "\<forall>x \<in> set rest. ?n \<le> x" by simp_all
            from frame_union_all [OF assms frame_length [OF f3] this]
            have "frame ?n ?h3 (snd (union_all_ref glob_union_ref ?h3 a rest))" .
            from frame_trans [OF f3 this] nq Inr Some ss cc l Cons show ?thesis
              by (auto simp: getUnionAttrsOfRoles_ref_def alloc_def split: prod.splits)
          qed
        qed
      qed
    qed
  qed
qed

lemma frame_Permission_new:
  assumes "union_frame glob_union_ref"
  shows "frame (length h) h (snd (Permission_new_ref glob_union_ref fuel h rg q))"
  using frame_getUnionAttrsOfRoles [OF assms, of h fuel rg q]
  by (cases "getUnionAttrsOfRoles_ref glob_union_ref fuel h rg q")
     (auto simp: Permission_new_ref_def split: sum.splits)

lemma frame_append: "frame (length h) h h' \<Longrightarrow> \<exists>new. h' = h @ new"
proof -
  assume f: "frame (length h) h h'"
  then have "take (length h) h' = h"
    by (intro nth_equalityI) (auto simp: frame_def)
  then have "h' = h @ drop (length h) h'"
    by (metis append_take_drop_id)
  then show ?thesis by blast
qed

lemma array_at_frame: "frame n h h' \<Longrightarrow> a < n \<Longrightarrow> array_at h' a = array_at h a"
  by (auto simp: frame_def array_at_def js_nth_def)

lemma refs_of_member:
  "(s, role) \<in> set rg \<Longrightarrow> (r, v) \<in> set role \<Longrightarrow> a \<in> set (refs_of_value v) \<Longrightarrow>
   a \<in> set (refs_of rg)"
  by (force simp: refs_of_def)

lemma grants_at_same:
  assumes "allocated h rg" and "\<forall>a < length h. array_at h' a = array_at h a"
  shows "grants_at h' rg = grants_at h rg"
proof -
  have v: "\<And>s role r v. (s, role) \<in> set rg \<Longrightarrow> (r, v) \<in> set role \<Longrightarrow> value_at h' v = value_at h v"
  proof -
    fix s role r v assume m: "(s, role) \<in> set rg" "(r, v) \<in> set role"
    have "\<forall>a \<in> set (refs_of_value v). a < length h"
      using assms(1) refs_of_member [OF m] by (auto simp: allocated_def list_all_iff)
    with assms(2) show "value_at h' v = value_at h v"
      by (cases v) (auto simp: value_at_def refs_of_value_def)
  qed
  show ?thesis
    unfolding grants_at_def
    by (rule map_cong [OF refl]) (use v in \<open>auto intro!: map_cong [OF refl]\<close>)
qed

lemma array_at_assign: "array_at (assign h d f) x = array_at h x"
  by (auto simp: assign_def array_at_def record_at_def js_nth_def nth_list_update
      split: option.splits heap_object.splits)

lemma nth_assign: "x \<noteq> d \<Longrightarrow> assign h d f ! x = h ! x"
  by (simp add: assign_def split: option.splits)

lemma update_absent: "map_of g k = None \<Longrightarrow> AList.update k v g = g @ [(k, v)]"
  by (induction g) (auto split: if_splits)

lemma union_frame_append: "union_frame append_union"
  by (auto simp: union_frame_def append_union_def split: option.splits heap_object.splits)

text \<open>
  The query path with addresses computes what the query path on contents computes, for a
  union that computes on the arrays it is given what \<open>glob_union\<close> does on their contents.
\<close>

lemma array_at_new: "array_at (h @ [Array xs]) (length h) = xs"
  by (simp add: array_at_def js_nth_def)

lemma array_at_old: "array_at (h @ [Record r]) a = array_at h a"
  by (auto simp: array_at_def js_nth_def nth_append)

lemma array_at_below: "a < length h \<Longrightarrow> array_at (h @ new) a = array_at h a"
  by (simp add: array_at_def js_nth_def nth_append)

lemma record_at_new: "record_at (h @ [Record r]) (length h) = Some r"
  by (simp add: record_at_def js_nth_def)

lemma record_at_assign: "record_at h c = Some r \<Longrightarrow> record_at (assign h c f) c = Some (f r)"
  by (auto simp: assign_def record_at_def js_nth_def split: option.splits heap_object.splits
      if_splits)

lemma record_at_frame: "frame n h h' \<Longrightarrow> c < n \<Longrightarrow> record_at h' c = record_at h c"
  by (auto simp: frame_def record_at_def js_nth_def)

lemma toStringArray_ref_content:
  "array_at (snd (toStringArray_ref h v)) (fst (toStringArray_ref h v))
     = toStringArray (strs_at h v)"
  by (cases v) (simp_all add: toStringArray_ref_def strs_at_def alloc_def array_at_new
      toStringArray_def)

lemma strs_at_old: "strs_at (h @ [Record r]) v = strs_at h v"
  by (cases v) (simp_all add: strs_at_def array_at_old)

lemma normalizeActionPossession_ref_content:
  assumes r: "record_at h c = Some r"
  shows "case normalizeActionPossession (r_action r) (r_possession r) of
           Inl e \<Rightarrow> fst (normalizeActionPossession_ref h c) = Inl e
         | Inr (act, poss) \<Rightarrow>
             fst (normalizeActionPossession_ref h c) = Inr ()
             \<and> record_at (snd (normalizeActionPossession_ref h c)) c
                 = Some (r\<lparr>r_action := Some act, r_possession := Some poss\<rparr>)"
proof (cases "r_action r")
  case None
  then show ?thesis
    by (simp add: normalizeActionPossession_def normalizeActionPossession_ref_def r)
next
  case (Some a)
  define act where "act = js_toLowerCase (js_trim (js_str (js_nth (js_split CHR '':'' a) 0)))"
  define poss where
    "poss = (if truthy (r_possession r) then r_possession r else js_nth (js_split CHR '':'' a) 1)"
  define h1 where "h1 = assign h c (\<lambda>r. r\<lparr>r_action := Some act\<rparr>)"
  have r1: "record_at h1 c = Some (r\<lparr>r_action := Some act\<rparr>)"
    unfolding h1_def using r by (rule record_at_assign)
  have v: "normalizeActionPossession (r_action r) (r_possession r)
      = (if truthy poss
         then (if poss \<noteq> Some ''any'' \<and> poss \<noteq> Some ''own''
               then Inl (InvalidPossession (js_str poss)) else Inr (act, js_str poss))
         else Inr (act, ''any''))"
    by (simp add: normalizeActionPossession_def Some Let_def act_def poss_def)
  have w: "normalizeActionPossession_ref h c
      = (if truthy poss
         then (if poss \<noteq> Some ''any'' \<and> poss \<noteq> Some ''own''
               then (Inl (InvalidPossession (js_str poss)), h1)
               else (Inr (), assign h1 c (\<lambda>r. r\<lparr>r_possession := poss\<rparr>)))
         else (Inr (), assign h1 c (\<lambda>r. r\<lparr>r_possession := Some ''any''\<rparr>)))"
    by (simp add: normalizeActionPossession_ref_def Some Let_def act_def poss_def h1_def r)
  show ?thesis
  proof (cases "truthy poss")
    case False
    then show ?thesis
      using record_at_assign [OF r1, of "\<lambda>r. r\<lparr>r_possession := Some ''any''\<rparr>"]
      by (simp add: v w)
  next
    case True
    show ?thesis
    proof (cases "poss \<noteq> Some ''any'' \<and> poss \<noteq> Some ''own''")
      case True
      with \<open>truthy poss\<close> show ?thesis by (simp add: v w)
    next
      case False
      then have p: "poss = Some (js_str poss)" by (auto simp: js_str_def)
      from False \<open>truthy poss\<close> show ?thesis
        using record_at_assign [OF r1, of "\<lambda>r. r\<lparr>r_possession := poss\<rparr>"] p
        by (simp add: v w)
    qed
  qed
qed

lemma normalizeQueryInfo_ref_content:
  assumes r: "record_at h q = Some r"
  shows "case normalizeQueryInfo (query_at h r) of
           Inl e \<Rightarrow> fst (normalizeQueryInfo_ref h q) = Inl e
         | Inr nq \<Rightarrow>
             (\<exists>r'. fst (normalizeQueryInfo_ref h q) = Inr (length h)
                  \<and> record_at (snd (normalizeQueryInfo_ref h q)) (length h) = Some r'
                  \<and> query_at (snd (normalizeQueryInfo_ref h q)) r' = nq)"
proof -
  define c where "c = length h"
  define h1 where "h1 = h @ [Record r]"
  define sa where "sa = fst (toStringArray_ref h1 (r_subject r))"
  define h2 where "h2 = snd (toStringArray_ref h1 (r_subject r))"
  define h3 where "h3 = assign h2 c (\<lambda>r. r\<lparr>r_subject := RArr sa\<rparr>)"
  define subject where "subject = toStringArray (strs_at h (r_subject r))"
  have t: "toStringArray_ref h1 (r_subject r) = (sa, h2)"
    by (simp add: sa_def h2_def)
  have f2: "frame (length h1) h1 h2"
    unfolding h2_def by (rule frame_toStringArray) simp
  have c1: "c < length h1"
    by (simp add: c_def h1_def)
  have r2: "record_at h2 c = Some r"
    using record_at_frame [OF f2 c1] by (simp add: h1_def c_def record_at_new)
  have r3: "record_at h3 c = Some (r\<lparr>r_subject := RArr sa\<rparr>)"
    unfolding h3_def using r2 by (rule record_at_assign)
  have s3: "array_at h3 sa = subject"
    using toStringArray_ref_content [of h1 "r_subject r"]
    by (simp add: h3_def array_at_assign sa_def h2_def subject_def h1_def strs_at_old)
  have v: "normalizeQueryInfo (query_at h r)
      = (if \<not> isFilledStringArray subject then Inl InvalidSubjects
         else (case r_resource r of
                 None \<Rightarrow> Inl InvalidResource
               | Some res \<Rightarrow>
                   if js_trim res = [] then Inl InvalidResource
                   else (case normalizeActionPossession (r_action r) (r_possession r) of
                           Inl e \<Rightarrow> Inl e
                         | Inr (act, poss) \<Rightarrow>
                             Inr \<lparr>q_subject = Arr subject, q_resource = Some (js_trim res),
                                  q_action = Some act, q_possession = Some poss\<rparr>)))"
    by (auto simp: normalizeQueryInfo_def query_at_def Let_def subject_def
        split: option.splits sum.splits)
  have w: "normalizeQueryInfo_ref h q
      = (if \<not> isFilledStringArray subject then (Inl InvalidSubjects, h3)
         else (case r_resource r of
                 None \<Rightarrow> (Inl InvalidResource, h3)
               | Some res \<Rightarrow>
                   if js_trim res = [] then (Inl InvalidResource, h3)
                   else (case normalizeActionPossession_ref
                                (assign h3 c (\<lambda>r. r\<lparr>r_resource := Some (js_trim res)\<rparr>)) c of
                           (Inl e, h5) \<Rightarrow> (Inl e, h5)
                         | (Inr _, h5) \<Rightarrow> (Inr c, h5))))"
    using s3 by (simp add: normalizeQueryInfo_ref_def r alloc_def t Let_def
        h1_def [symmetric] c_def [symmetric] h3_def [symmetric]
        cong: option.case_cong if_cong)
  show ?thesis
  proof (cases "isFilledStringArray subject")
    case False
    then show ?thesis by (simp add: v w)
  next
    case filled: True
    show ?thesis
    proof (cases "r_resource r")
      case None
      with filled show ?thesis by (simp add: v w)
    next
      case (Some res)
      show ?thesis
      proof (cases "js_trim res = []")
        case True
        with filled Some show ?thesis by (simp add: v w)
      next
        case False
        define h4 where "h4 = assign h3 c (\<lambda>r. r\<lparr>r_resource := Some (js_trim res)\<rparr>)"
        define r4 where "r4 = r\<lparr>r_subject := RArr sa, r_resource := Some (js_trim res)\<rparr>"
        have r4: "record_at h4 c = Some r4"
          using record_at_assign [OF r3, of "\<lambda>r. r\<lparr>r_resource := Some (js_trim res)\<rparr>"]
          by (simp add: h4_def r4_def)
        have vv: "normalizeQueryInfo (query_at h r)
            = (case normalizeActionPossession (r_action r) (r_possession r) of
                 Inl e \<Rightarrow> Inl e
               | Inr (act, poss) \<Rightarrow>
                   Inr \<lparr>q_subject = Arr subject, q_resource = Some (js_trim res),
                        q_action = Some act, q_possession = Some poss\<rparr>)"
          using filled Some False by (simp add: v)
        have ww: "normalizeQueryInfo_ref h q
            = (case normalizeActionPossession_ref h4 c of
                 (Inl e, h5) \<Rightarrow> (Inl e, h5)
               | (Inr _, h5) \<Rightarrow> (Inr c, h5))"
          using filled Some False by (simp add: w h4_def)
        obtain res5 h5 where n: "normalizeActionPossession_ref h4 c = (res5, h5)"
          by (cases "normalizeActionPossession_ref h4 c")
        have a5: "array_at h5 sa = subject"
        proof -
          have "frame 0 h4 h5"
            using frame_normalizeActionPossession [of 0 h4 c] by (simp add: n)
          have "\<forall>x. array_at h5 x = array_at h4 x"
          proof (cases "record_at h4 c")
            case None
            then show ?thesis using n by (simp add: normalizeActionPossession_ref_def)
          next
            case (Some rr)
            then show ?thesis
              using n
              by (auto simp: normalizeActionPossession_ref_def Let_def array_at_assign
                  split: option.splits if_splits)
          qed
          then show ?thesis by (simp add: h4_def array_at_assign s3)
        qed
        have ra: "r_action r4 = r_action r" "r_possession r4 = r_possession r"
          by (simp_all add: r4_def)
        show ?thesis
        proof (cases "normalizeActionPossession (r_action r) (r_possession r)")
          case (Inl e)
          then show ?thesis
            using normalizeActionPossession_ref_content [OF r4]
            by (simp add: vv ww ra n)
        next
          case (Inr ap)
          obtain act poss where ap: "ap = (act, poss)" by (cases ap)
          from Inr ap normalizeActionPossession_ref_content [OF r4]
          have "res5 = Inr ()"
            and "record_at h5 c = Some (r4\<lparr>r_action := Some act, r_possession := Some poss\<rparr>)"
            by (simp_all add: ra n)
          then have "fst (normalizeQueryInfo_ref h q) = Inr c"
            and "record_at (snd (normalizeQueryInfo_ref h q)) c
                   = Some (r4\<lparr>r_action := Some act, r_possession := Some poss\<rparr>)"
            and "query_at (snd (normalizeQueryInfo_ref h q))
                   (r4\<lparr>r_action := Some act, r_possession := Some poss\<rparr>)
                 = \<lparr>q_subject = Arr subject, q_resource = Some (js_trim res),
                    q_action = Some act, q_possession = Some poss\<rparr>"
            using a5 by (simp_all add: ww n query_at_def r4_def strs_at_def)
          then show ?thesis
            unfolding vv Inr ap c_def by simp
        qed
      qed
    qed
  qed
qed

lemma map_of_grants_at:
  "map_of (grants_at h rg) s = map_option (map (\<lambda>(r, v). (r, value_at h v))) (map_of rg s)"
  by (induction rg) (auto simp: grants_at_def)

lemma map_of_role_at:
  "map_of (map (\<lambda>(r, v). (r, value_at h v)) role) k = map_option (value_at h) (map_of role k)"
  by (induction role) auto

lemma map_of_resource_at:
  "map_of (map (\<lambda>(k, a). (k, array_at h a)) d) k = map_option (array_at h) (map_of d k)"
  by (induction d) auto

lemma frame_mono: "frame n h h' \<Longrightarrow> m \<le> n \<Longrightarrow> frame m h h'"
  by (simp add: frame_def)

lemma concat_copy_content:
  "array_at (snd (concat_copy h a)) (fst (concat_copy h a)) = array_at h a
   \<and> fst (concat_copy h a) < length (snd (concat_copy h a))"
  by (simp add: concat_copy_def alloc_def array_at_new)

lemma copy_found_content:
  assumes "\<forall>a \<in> set (refs_of_value v). array_at h a = array_at h0 a"
  shows "fst (copy_found h v act poss) < length (snd (copy_found h v act poss))
       \<and> attrs_of_role [(res, value_at h0 v)] res act poss
           = [array_at (snd (copy_found h v act poss)) (fst (copy_found h v act poss))]"
proof -
  have e: "array_at (snd (concat_copy (snd (alloc h (Array []))) (length h)))
             (fst (concat_copy (snd (alloc h (Array []))) (length h))) = []
         \<and> fst (concat_copy (snd (alloc h (Array []))) (length h))
             < length (snd (concat_copy (snd (alloc h (Array []))) (length h)))"
    using concat_copy_content [of "h @ [Array []]" "length h"]
    by (simp add: alloc_def array_at_new)
  show ?thesis
  proof (cases v)
    case (RExtend a)
    then show ?thesis using e by (simp add: copy_found_def attrs_of_role_def value_at_def)
  next
    case (RResource d)
    have m: "\<And>k a. map_of d k = Some a \<Longrightarrow> array_at h a = array_at h0 a"
    proof -
      fix k a
      assume "map_of d k = Some a"
      then have "a \<in> set (map snd d)" by (force dest: map_of_SomeD)
      with assms RResource show "array_at h a = array_at h0 a"
        by (auto simp: refs_of_value_def)
    qed
    show ?thesis
    proof (cases "map_of d (act @ '':'' @ poss)")
      case (Some a)
      then show ?thesis
        using RResource m [OF Some] concat_copy_content [of h a]
        by (simp add: copy_found_def attrs_of_role_def value_at_def map_of_resource_at)
    next
      case None
      show ?thesis
      proof (cases "map_of d (act @ '':any'')")
        case (Some a)
        then show ?thesis
          using RResource None m [OF Some] concat_copy_content [of h a]
          by (simp add: copy_found_def attrs_of_role_def value_at_def map_of_resource_at)
      next
        case n: None
        then show ?thesis
          using RResource None e
          by (simp add: copy_found_def attrs_of_role_def value_at_def map_of_resource_at)
      qed
    qed
  qed
qed

lemma collect_copies_content:
  assumes al: "allocated h0 rg"
  shows "frame (length h0) h0 h \<Longrightarrow>
     frame (length h) h (snd (collect_copies h rg res act poss ss acc))
     \<and> (case collect_attrs (grants_at h0 rg) res act poss ss of
          Inl e \<Rightarrow> fst (collect_copies h rg res act poss ss acc) = Inl e
        | Inr l \<Rightarrow>
            (\<exists>cs. fst (collect_copies h rg res act poss ss acc) = Inr (acc @ cs)
                \<and> map (array_at (snd (collect_copies h rg res act poss ss acc))) cs = l
                \<and> distinct cs
                \<and> list_all (\<lambda>c. length h \<le> c
                               \<and> c < length (snd (collect_copies h rg res act poss ss acc))) cs))"
proof (induction ss arbitrary: h acc)
  case Nil
  then show ?case by (simp add: frame_refl)
next
  case (Cons s ss)
  note f = Cons.prems
  show ?case
  proof (cases "map_of rg s")
    case None
    then show ?thesis by (simp add: map_of_grants_at frame_refl)
  next
    case (Some sr)
    define subject where "subject = map (\<lambda>(r, v). (r, value_at h0 v)) sr"
    have g: "map_of (grants_at h0 rg) s = Some subject"
      by (simp add: map_of_grants_at Some subject_def)
    show ?thesis
    proof (cases "map_of sr res")
      case None
      then have "attrs_of_role subject res act poss = []"
        by (simp add: attrs_of_role_def subject_def map_of_role_at)
      then have v: "collect_attrs (grants_at h0 rg) res act poss (s # ss)
                  = collect_attrs (grants_at h0 rg) res act poss ss"
        using g by (simp split: sum.splits)
      have w: "collect_copies h rg res act poss (s # ss) acc
             = collect_copies h rg res act poss ss acc"
        using Some None by simp
      show ?thesis unfolding v w using Cons.IH [OF f] .
    next
      case v: (Some v)
      have "(s, sr) \<in> set rg" "(res, v) \<in> set sr"
        using Some v by (auto dest: map_of_SomeD)
      then have "\<forall>a \<in> set (refs_of_value v). a < length h0"
        using al refs_of_member [of s sr rg res v]
        by (auto simp: allocated_def list_all_iff)
      then have same: "\<forall>a \<in> set (refs_of_value v). array_at h a = array_at h0 a"
        using array_at_frame [OF f] by blast
      obtain c1 h1 where p: "copy_found h v act poss = (c1, h1)"
        by (cases "copy_found h v act poss") auto
      from copy_found_content [OF same, of act poss res] p
      have c1: "c1 < length h1"
        and a1: "attrs_of_role [(res, value_at h0 v)] res act poss = [array_at h1 c1]"
        by simp_all
      from frame_copy_found [OF order_refl, of h v act poss] p
      have f1: "frame (length h) h h1" and n1: "length h \<le> c1" by simp_all
      have f01: "frame (length h0) h0 h1"
        using frame_trans [OF f frame_mono [OF f1]] f by (simp add: frame_def)
      let ?r = "collect_copies h1 rg res act poss ss (acc @ [c1])"
      from Cons.IH [OF f01, of "acc @ [c1]"]
      have i1: "frame (length h1) h1 (snd ?r)"
        and i2: "case collect_attrs (grants_at h0 rg) res act poss ss of
          Inl e \<Rightarrow> fst ?r = Inl e
        | Inr l \<Rightarrow>
            (\<exists>cs. fst ?r = Inr ((acc @ [c1]) @ cs)
                \<and> map (array_at (snd ?r)) cs = l
                \<and> distinct cs
                \<and> list_all (\<lambda>c. length h1 \<le> c \<and> c < length (snd ?r)) cs)"
        by blast+
      have w: "collect_copies h rg res act poss (s # ss) acc = ?r"
        using Some v p by simp
      have "map_of subject res = Some (value_at h0 v)"
        by (simp add: subject_def map_of_role_at v)
      then have "attrs_of_role subject res act poss = [array_at h1 c1]"
        using a1 by (simp add: attrs_of_role_def)
      then have vv: "collect_attrs (grants_at h0 rg) res act poss (s # ss)
          = (case collect_attrs (grants_at h0 rg) res act poss ss of
               Inl e \<Rightarrow> Inl e
             | Inr l \<Rightarrow> Inr (array_at h1 c1 # l))"
        using g by (simp split: sum.splits)
      have l1: "length h \<le> length h1" using f1 by (simp add: frame_def)
      have l2: "length h1 \<le> length (snd ?r)" using i1 by (simp add: frame_def)
      have fr: "frame (length h) h (snd ?r)"
        using frame_trans [OF f1 frame_mono [OF i1 l1]] .
      have k: "array_at (snd ?r) c1 = array_at h1 c1"
        using array_at_frame [OF i1 c1] .
      show ?thesis
      proof (cases "collect_attrs (grants_at h0 rg) res act poss ss")
        case (Inl e)
        with i2 fr show ?thesis unfolding vv w by simp
      next
        case (Inr l)
        with i2 obtain cs where cs: "fst ?r = Inr ((acc @ [c1]) @ cs)"
          "map (array_at (snd ?r)) cs = l" "distinct cs"
          "list_all (\<lambda>c. length h1 \<le> c \<and> c < length (snd ?r)) cs"
          by auto
        have "fst ?r = Inr (acc @ (c1 # cs))" using cs(1) by simp
        moreover have "map (array_at (snd ?r)) (c1 # cs) = array_at h1 c1 # l"
          using cs(2) k by simp
        moreover have "distinct (c1 # cs)"
          using cs(3) cs(4) c1 by (auto simp: list_all_iff)
        moreover have "list_all (\<lambda>c. length h \<le> c \<and> c < length (snd ?r)) (c1 # cs)"
          using cs(4) n1 c1 l1 l2 by (auto simp: list_all_iff)
        ultimately have "\<exists>cs'. fst ?r = Inr (acc @ cs')
            \<and> map (array_at (snd ?r)) cs' = array_at h1 c1 # l
            \<and> distinct cs'
            \<and> list_all (\<lambda>c. length h \<le> c \<and> c < length (snd ?r)) cs'"
          by - (rule exI [of _ "c1 # cs"], simp)
        with fr show ?thesis unfolding vv w Inr by simp
      qed
    qed
  qed
qed

lemma union_all_ref_content:
  assumes uf: "union_frame glob_union_ref" and ur: "union_reads glob_union_ref glob_union"
  shows "distinct (a # rest) \<Longrightarrow> list_all (\<lambda>x. x < length h) rest \<Longrightarrow>
         array_at (snd (union_all_ref glob_union_ref h a rest))
                  (fst (union_all_ref glob_union_ref h a rest))
           = foldl glob_union (array_at h a) (map (array_at h) rest)"
proof (induction rest arbitrary: h a)
  case Nil
  then show ?case by simp
next
  case (Cons x rest)
  obtain a' h1 where u: "glob_union_ref h a x = (a', h1)"
    by (cases "glob_union_ref h a x")
  from Cons.prems have ax: "a \<noteq> x" by simp
  have c: "array_at h1 a' = glob_union (array_at h a) (array_at h x)"
    using ur [unfolded union_reads_def, rule_format, OF ax, of h] by (simp add: u)
  from uf u have l: "length h \<le> length h1"
    and w: "a' = a \<or> a' = x \<or> length h \<le> a'"
    and k: "\<forall>y < length h. y \<noteq> a \<and> y \<noteq> x \<longrightarrow> h1 ! y = h ! y"
    unfolding union_frame_def by (metis fst_conv snd_conv)+
  have d: "distinct (a' # rest)"
    using Cons.prems w by (auto simp: list_all_iff)
  have b: "list_all (\<lambda>x. x < length h1) rest"
    using Cons.prems(2) l by (auto simp: list_all_iff)
  have "\<And>y. y \<in> set rest \<Longrightarrow> array_at h1 y = array_at h y"
  proof -
    fix y
    assume y: "y \<in> set rest"
    with Cons.prems have "y < length h" "y \<noteq> a" "y \<noteq> x"
      by (auto simp: list_all_iff)
    with k l show "array_at h1 y = array_at h y"
      by (simp add: array_at_def js_nth_def)
  qed
  then have m: "map (array_at h1) rest = map (array_at h) rest" by simp
  from Cons.IH [OF d b] show ?case
    by (simp add: u c m)
qed

lemma query_path_agrees:
  assumes uf: "union_frame glob_union_ref" and ur: "union_reads glob_union_ref glob_union"
    and al: "allocated h rg" and r: "record_at h q = Some r"
  shows "(case getUnionAttrsOfRoles_ref glob_union_ref fuel h rg q of
            (Inl e, h') \<Rightarrow> Inl e
          | (Inr a, h') \<Rightarrow> Inr (array_at h' a))
         = getUnionAttrsOfRoles glob_union fuel (grants_at h rg) (query_at h r)"
proof (cases "normalizeQueryInfo (query_at h r)")
  case (Inl e)
  with normalizeQueryInfo_ref_content [OF r]
  have "fst (normalizeQueryInfo_ref h q) = Inl e" by simp
  then show ?thesis
    using Inl
    by (cases "normalizeQueryInfo_ref h q")
      (simp add: getUnionAttrsOfRoles_ref_def getUnionAttrsOfRoles_def)
next
  case (Inr nq)
  define h1 where "h1 = snd (normalizeQueryInfo_ref h q)"
  from Inr normalizeQueryInfo_ref_content [OF r]
  obtain r' where n: "normalizeQueryInfo_ref h q = (Inr (length h), h1)"
    and r': "record_at h1 (length h) = Some r'" and q': "query_at h1 r' = nq"
    by (cases "normalizeQueryInfo_ref h q") (auto simp: h1_def)
  have f1: "frame (length h) h h1"
    using frame_normalizeQueryInfo [of h q] by (simp add: h1_def)
  have g1: "grants_at h1 rg = grants_at h rg"
    using grants_at_same [OF al, of h1] array_at_frame [OF f1] by blast
  have s1: "strs_at h1 (r_subject r') = q_subject nq"
    and q1: "r_resource r' = q_resource nq" "r_action r' = q_action nq"
      "r_possession r' = q_possession nq"
    using q' by (auto simp: query_at_def)
  show ?thesis
  proof (cases "getFlatRoles fuel (grants_at h rg) (q_subject nq)")
    case (Inl e)
    then show ?thesis
      by (simp add: getUnionAttrsOfRoles_ref_def getUnionAttrsOfRoles_def Inr n r' g1 s1)
  next
    case subjects: (Inr subjects)
    let ?c = "collect_copies h1 rg (js_str (q_resource nq)) (js_str (q_action nq))
                (js_str (q_possession nq)) subjects []"
    obtain res2 h2 where c: "?c = (res2, h2)" by (cases ?c)
    from collect_copies_content [OF al f1, of "js_str (q_resource nq)" "js_str (q_action nq)"
        "js_str (q_possession nq)" subjects "[]"] c
    have i: "case collect_attrs (grants_at h rg) (js_str (q_resource nq)) (js_str (q_action nq))
                  (js_str (q_possession nq)) subjects of
          Inl e \<Rightarrow> res2 = Inl e
        | Inr l \<Rightarrow>
            (\<exists>cs. res2 = Inr cs \<and> map (array_at h2) cs = l \<and> distinct cs
                \<and> list_all (\<lambda>c. length h1 \<le> c \<and> c < length h2) cs)"
      by (auto split: sum.splits)
    have w: "getUnionAttrsOfRoles_ref glob_union_ref fuel h rg q
        = (case res2 of
             Inl e \<Rightarrow> (Inl e, h2)
           | Inr attrsList \<Rightarrow>
               (case attrsList of
                  [] \<Rightarrow> (Inr (length h2), h2 @ [Array []])
                | a # rest \<Rightarrow>
                    (case union_all_ref glob_union_ref (h2 @ [Array []]) a rest of
                       (attrs', h4) \<Rightarrow> (Inr attrs', h4))))"
      by (simp add: getUnionAttrsOfRoles_ref_def n r' g1 s1 q1 subjects c alloc_def
          split: sum.splits list.splits)
    have v: "getUnionAttrsOfRoles glob_union fuel (grants_at h rg) (query_at h r)
        = (case collect_attrs (grants_at h rg) (js_str (q_resource nq)) (js_str (q_action nq))
                  (js_str (q_possession nq)) subjects of
             Inl e \<Rightarrow> Inl e
           | Inr attrsList \<Rightarrow> Inr (union_all glob_union attrsList))"
      by (simp add: getUnionAttrsOfRoles_def Inr subjects)
    show ?thesis
    proof (cases "collect_attrs (grants_at h rg) (js_str (q_resource nq)) (js_str (q_action nq))
                  (js_str (q_possession nq)) subjects")
      case (Inl e)
      with i show ?thesis by (simp add: v w)
    next
      case l: (Inr l)
      with i obtain cs where cs: "res2 = Inr cs" "map (array_at h2) cs = l" "distinct cs"
        "list_all (\<lambda>c. length h1 \<le> c \<and> c < length h2) cs"
        by auto
      show ?thesis
      proof (cases cs)
        case Nil
        with cs show ?thesis by (simp add: v w l union_all_def array_at_new)
      next
        case (Cons a rest)
        have b: "list_all (\<lambda>x. x < length (h2 @ [Array []])) rest"
          using cs(4) Cons by (auto simp: list_all_iff)
        have d: "distinct (a # rest)" using cs(3) Cons by simp
        have m: "map (array_at (h2 @ [Array []])) (a # rest) = l"
        proof -
          have "\<And>y. y \<in> set cs \<Longrightarrow> array_at (h2 @ [Array []]) y = array_at h2 y"
            using cs(4) by (auto simp: list_all_iff array_at_below)
          then have "map (array_at (h2 @ [Array []])) cs = map (array_at h2) cs" by simp
          with cs(2) Cons show ?thesis by simp
        qed
        from union_all_ref_content [OF uf ur d b] m
        have "array_at (snd (union_all_ref glob_union_ref (h2 @ [Array []]) a rest))
                (fst (union_all_ref glob_union_ref (h2 @ [Array []]) a rest))
              = union_all glob_union l"
          by (auto simp: union_all_def)
        then show ?thesis
          using cs(1) Cons
          by (cases "union_all_ref glob_union_ref (h2 @ [Array []]) a rest")
            (simp add: v w l)
      qed
    qed
  qed
qed

lemma permission_agrees:
  assumes "union_frame glob_union_ref" and "union_reads glob_union_ref glob_union"
    and "allocated h rg" and "record_at h q = Some r"
  shows "fst (AC_permission_ref glob_union_ref fuel h rg q)
         = Permission_new glob_union fuel (grants_at h rg) (query_at h r)"
  using query_path_agrees [OF assms, of fuel]
  by (cases "getUnionAttrsOfRoles_ref glob_union_ref fuel h rg q")
    (auto simp: AC_permission_ref_def Permission_new_ref_def Permission_new_def
      split: sum.splits)

lemma concat_union_ok: "union_frame concat_union \<and> union_reads concat_union (@)"
  by (auto simp: union_frame_def union_reads_def concat_union_def alloc_def array_at_new
      nth_append)

text \<open>
  C10. Let \<^verbatim>\<open>Glob.union\<close> write to nothing but the two arrays that it is given and what it
  allocates. Then \<^verbatim>\<open>permission(queryInfo)\<close> leaves every object that existed before the
  call as it was: the heap after the call is the heap before it, followed by new
  objects. So the record that the caller passed is not written to (it is cloned, and the
  assignments go to the clone), and no array of the store is (what is handed to the
  union are copies), whatever arrays the entries of the store share with one another or
  with the caller: the grants are after the call what they were before. \<^verbatim>\<open>can(...)\<close>
  allocates the draft of the query, or takes the record that it is given as the draft.
  An action method of the query assigns the action, the possession and the resource to
  this draft and writes to no other object that existed before; all arrays, and with
  them the grants, are what they were. Constructing an \<^verbatim>\<open>Access\<close> builder is different:
  \<^verbatim>\<open>grant([s])\<close> for a valid name \<open>s\<close> that the grants do not have yet appends the empty
  entry for \<open>s\<close>.
\<close>

theorem query_never_mutates:
  assumes "union_frame glob_union_ref"
  shows "(\<exists>new. snd (AC_permission_ref glob_union_ref fuel h rg q) = h @ new)
       \<and> (allocated h rg \<longrightarrow>
            grants_at (snd (AC_permission_ref glob_union_ref fuel h rg q)) rg = grants_at h rg)
       \<and> (\<exists>new. snd (AC_can_ref h arg) = h @ new)
       \<and> (\<forall>x < length h. x \<noteq> d \<longrightarrow>
            snd (Query_getPermission_ref glob_union_ref fuel h rg d action possession resource) ! x
              = h ! x)
       \<and> (\<forall>x < length h.
            array_at (snd (Query_getPermission_ref glob_union_ref fuel h rg d action possession
                             resource)) x
              = array_at h x)
       \<and> (allocated h rg \<longrightarrow>
            grants_at (snd (Query_getPermission_ref glob_union_ref fuel h rg d action possession
                              resource)) rg
              = grants_at h rg)
       \<and> (validName s = Inr () \<and> map_of (ac_grants a) s = None \<and> \<not> ac_frozen a \<longrightarrow>
            AC_grant a (Subjects (Arr [s]))
              = (Inr \<lparr>acc_info = empty_access\<lparr>a_subject := Arr [s]\<rparr>, acc_ref = ac_id a\<rparr>,
                 a\<lparr>ac_grants := ac_grants a @ [(s, [])]\<rparr>))"
proof -
  let ?p = "snd (AC_permission_ref glob_union_ref fuel h rg q)"
  have fp: "frame (length h) h ?p"
    using frame_Permission_new [OF assms] by (simp add: AC_permission_ref_def)
  have 1: "\<exists>new. ?p = h @ new"
    using fp by (rule frame_append)
  have 2: "allocated h rg \<longrightarrow> grants_at ?p rg = grants_at h rg"
    using grants_at_same [of h rg ?p] array_at_frame [OF fp] by blast
  have 3: "\<exists>new. snd (AC_can_ref h arg) = h @ new"
  proof (cases arg)
    case COmitted
    then show ?thesis by (simp add: AC_can_ref_def alloc_def)
  next
    case (CSubjects v)
    have "frame (length h) h (h @ [Record empty_qrecord])"
      using frame_alloc [OF order_refl, of h "Record empty_qrecord"] by (simp add: alloc_def)
    moreover have "frame (length h) (h @ [Record empty_qrecord])
         (assign (h @ [Record empty_qrecord]) (length h) (\<lambda>r. r\<lparr>r_subject := v\<rparr>))"
      by (rule frame_assign) simp_all
    ultimately have "frame (length h) h
         (assign (h @ [Record empty_qrecord]) (length h) (\<lambda>r. r\<lparr>r_subject := v\<rparr>))"
      by (rule frame_trans)
    from frame_append [OF this] have
      "\<exists>new. assign (h @ [Record empty_qrecord]) (length h) (\<lambda>r. r\<lparr>r_subject := v\<rparr>) = h @ new" .
    with CSubjects show ?thesis by (cases v) (simp_all add: AC_can_ref_def alloc_def)
  next
    case (CInfo i)
    then show ?thesis by (simp add: AC_can_ref_def)
  next
    case CEmptyInfo
    then show ?thesis by (simp add: AC_can_ref_def)
  qed
  define h3 where "h3 =
     (let h1 = assign h d (\<lambda>r. r\<lparr>r_action := Some action\<rparr>);
          h2 = assign h1 d (\<lambda>r. r\<lparr>r_possession := Some possession\<rparr>)
      in if truthy resource then assign h2 d (\<lambda>r. r\<lparr>r_resource := resource\<rparr>) else h2)"
  let ?g = "snd (Query_getPermission_ref glob_union_ref fuel h rg d action possession resource)"
  have g: "?g = snd (Permission_new_ref glob_union_ref fuel h3 rg d)"
    by (simp add: Query_getPermission_ref_def h3_def Let_def)
  have l3: "length h3 = length h"
    by (simp add: h3_def Let_def length_assign)
  have n3: "\<And>x. x \<noteq> d \<Longrightarrow> h3 ! x = h ! x"
    by (simp add: h3_def Let_def nth_assign)
  have a3: "\<And>x. array_at h3 x = array_at h x"
    by (simp add: h3_def Let_def array_at_assign)
  have fg: "frame (length h) h3 ?g"
    using frame_Permission_new [OF assms, of h3 fuel rg d] by (simp add: g l3)
  have 4: "\<forall>x < length h. x \<noteq> d \<longrightarrow> ?g ! x = h ! x"
    using fg n3 by (simp add: frame_def)
  have 5: "\<forall>x < length h. array_at ?g x = array_at h x"
    using array_at_frame [OF fg] a3 by simp
  have 6: "allocated h rg \<longrightarrow> grants_at ?g rg = grants_at h rg"
    using grants_at_same [of h rg ?g] 5 by blast
  have 7: "validName s = Inr () \<and> map_of (ac_grants a) s = None \<and> \<not> ac_frozen a \<longrightarrow>
            AC_grant a (Subjects (Arr [s]))
              = (Inr \<lparr>acc_info = empty_access\<lparr>a_subject := Arr [s]\<rparr>, acc_ref = ac_id a\<rparr>,
                 a\<lparr>ac_grants := ac_grants a @ [(s, [])]\<rparr>)"
    by (auto simp: AC_grant_def isLocked_def Access_new_def Access_subject_def preCreateRoles_def
        toStringArray_def update_absent empty_access_def object_of_current write_object_current
        Let_def)
  from 1 2 3 4 5 6 7 show ?thesis by blast
qed

theorem query_never_mutates_witness:
  "union_frame append_union
   \<and> allocated shared_heap shared_grants
   \<and> AC_permission_ref append_union 1 shared_heap shared_grants 2
       = (Inr \<lparr>p_attributes = [''title'', ''title''], p_granted = True\<rparr>,
          shared_heap @
            [Record \<lparr>r_subject = RArr 1, r_resource = Some ''doc'', r_action = Some ''read'',
                     r_possession = Some ''any''\<rparr>,
             Array [''title'', ''title''], Array [''title''], Array []])
   \<and> grants_at (snd (AC_permission_ref append_union 1 shared_heap shared_grants 2)) shared_grants
       = grants_at shared_heap shared_grants
   \<and> grants_at shared_heap shared_grants
       = [(''admin'', [(''doc'', Resource [(''read:any'', [''title''])])]),
          (''user'', [(''doc'', Resource [(''read:any'', [''title''])])])]
   \<and> AC_can_ref shared_heap (CSubjects (RArr 1))
       = (Inr 3, shared_heap @
            [Record \<lparr>r_subject = RArr 1, r_resource = None, r_action = None,
                     r_possession = None\<rparr>])
   \<and> allocated (snd (AC_can_ref shared_heap (CSubjects (RArr 1)))) shared_grants
   \<and> fst (Query_getPermission_ref append_union 1
              (snd (AC_can_ref shared_heap (CSubjects (RArr 1)))) shared_grants 3
              ''read'' ''any'' (Some ''doc''))
       = Inr \<lparr>p_attributes = [''title'', ''title''], p_granted = True\<rparr>
   \<and> grants_at (snd (Query_getPermission_ref append_union 1
                         (snd (AC_can_ref shared_heap (CSubjects (RArr 1)))) shared_grants 3
                         ''read'' ''any'' (Some ''doc''))) shared_grants
       = grants_at shared_heap shared_grants
   \<and> validName ''admin'' = Inr ()
   \<and> ac_grants (snd (AC_grant AC_init (Subjects (Arr [''admin''])))) = [(''admin'', [])]"
proof -
  let ?h = "snd (AC_can_ref shared_heap (CSubjects (RArr 1)))"
  have a: "allocated shared_heap shared_grants" by code_simp
  have e: "AC_permission_ref append_union 1 shared_heap shared_grants 2
       = (Inr \<lparr>p_attributes = [''title'', ''title''], p_granted = True\<rparr>,
          shared_heap @
            [Record \<lparr>r_subject = RArr 1, r_resource = Some ''doc'', r_action = Some ''read'',
                     r_possession = Some ''any''\<rparr>,
             Array [''title'', ''title''], Array [''title''], Array []])"
    by code_simp
  have g: "grants_at shared_heap shared_grants
       = [(''admin'', [(''doc'', Resource [(''read:any'', [''title''])])]),
          (''user'', [(''doc'', Resource [(''read:any'', [''title''])])])]"
    by code_simp
  have c: "AC_can_ref shared_heap (CSubjects (RArr 1))
       = (Inr 3, shared_heap @
            [Record \<lparr>r_subject = RArr 1, r_resource = None, r_action = None,
                     r_possession = None\<rparr>])"
    by code_simp
  have ac: "allocated ?h shared_grants" by code_simp
  have gc: "grants_at ?h shared_grants = grants_at shared_heap shared_grants" by code_simp
  have p: "fst (Query_getPermission_ref append_union 1 ?h shared_grants 3
              ''read'' ''any'' (Some ''doc''))
       = Inr \<lparr>p_attributes = [''title'', ''title''], p_granted = True\<rparr>"
    by code_simp
  have v: "validName ''admin'' = Inr ()" by code_simp
  have i: "map_of (ac_grants AC_init) ''admin'' = None \<and> \<not> ac_frozen AC_init"
    by (simp add: AC_init_def)
  note t1 = query_never_mutates [OF union_frame_append, where fuel = 1 and h = shared_heap
      and rg = shared_grants and q = 2]
  note t2 = query_never_mutates [OF union_frame_append, where fuel = 1 and h = ?h
      and rg = shared_grants and d = 3 and action = "''read''" and possession = "''any''"
      and resource = "Some ''doc''" and s = "''admin''" and a = AC_init]
  from t1 a
  have k1: "grants_at (snd (AC_permission_ref append_union 1 shared_heap shared_grants 2))
              shared_grants
       = grants_at shared_heap shared_grants"
    by blast
  from t2 ac gc
  have k2: "grants_at (snd (Query_getPermission_ref append_union 1 ?h shared_grants 3
                         ''read'' ''any'' (Some ''doc''))) shared_grants
       = grants_at shared_heap shared_grants"
    by simp
  from t2 v i
  have "AC_grant AC_init (Subjects (Arr [''admin'']))
      = (Inr \<lparr>acc_info = empty_access\<lparr>a_subject := Arr [''admin'']\<rparr>, acc_ref = ac_id AC_init\<rparr>,
         AC_init\<lparr>ac_grants := ac_grants AC_init @ [(''admin'', [])]\<rparr>)"
    by blast
  then have k3: "ac_grants (snd (AC_grant AC_init (Subjects (Arr [''admin''])))) = [(''admin'', [])]"
    by (simp add: AC_init_def)
  from union_frame_append a e k1 g c ac p k2 v k3 show ?thesis by blast
qed

end
